theory Spec2Isabelle
  imports Main "HOL-Library.Word"
begin

unbundle bit_operations_syntax

section \<open>JavaScript numbers and bitwise operators\<close>

text \<open>
  The driver computes on JavaScript numbers. Every value the modelled code handles is an
  integer (bytes from the transport, pin numbers, bit masks), so a number is an \<open>int\<close>.
  The bitwise operators of JavaScript first convert their operands to a signed 32-bit
  integer (ToInt32), take the shift count modulo 32, and return a signed 32-bit integer;
  \<open>+\<close> and \<open>-\<close> do not wrap. The wrap-around is written out in \<open>to_int32\<close>.
\<close>

definition to_int32 :: "int \<Rightarrow> int" where
  "to_int32 x = (x + 2147483648) mod 4294967296 - 2147483648"

definition js_and :: "int \<Rightarrow> int \<Rightarrow> int" where
  "js_and a b = to_int32 a AND to_int32 b"

definition js_or :: "int \<Rightarrow> int \<Rightarrow> int" where
  "js_or a b = to_int32 a OR to_int32 b"

definition js_xor :: "int \<Rightarrow> int \<Rightarrow> int" where
  "js_xor a b = to_int32 a XOR to_int32 b"

definition js_not :: "int \<Rightarrow> int" where
  "js_not a = NOT (to_int32 a)"

definition js_shl :: "int \<Rightarrow> int \<Rightarrow> int" where
  "js_shl a n = to_int32 (push_bit (nat (n mod 32)) (to_int32 a))"

definition js_sar :: "int \<Rightarrow> int \<Rightarrow> int" where
  "js_sar a n = drop_bit (nat (n mod 32)) (to_int32 a)"

text \<open>
  Reading an array past its end gives \<open>undefined\<close> in JavaScript; \<open>undefined\<close> is
  \<open>None\<close>, and a bitwise operator reads it as 0.
\<close>

definition js_nth :: "'a list \<Rightarrow> nat \<Rightarrow> 'a option" where
  "js_nth xs i = (if i < length xs then Some (xs ! i) else None)"

definition num :: "int option \<Rightarrow> int" where
  "num x = (case x of None \<Rightarrow> 0 | Some v \<Rightarrow> v)"

datatype error =
    DecodeOddLength
  | SysexByteTaken int
  | InvalidDigitalWrite
  | InvalidDigitalRead
  | TypeError
  | RangeError
  | TransportWriteFailed

section \<open>Board.encode and Board.decode\<close>

fun encode :: "int list \<Rightarrow> int list" where
  "encode [] = []"
| "encode (d # ds) = js_and d 0x7F # js_and (js_sar d 7) 0x7F # encode ds"

text \<open>
  The \<open>while (data.length)\<close> loop of \<open>Board.decode\<close> shifts two elements off the
  front per round; shifting an empty array gives \<open>undefined\<close>.
\<close>

fun decode_loop :: "int list \<Rightarrow> int list" where
  "decode_loop [] = []"
| "decode_loop [lsb] = [js_or lsb (js_shl (num None) 7)]"
| "decode_loop (lsb # msb # rest) = js_or lsb (js_shl msb 7) # decode_loop rest"

definition decode :: "int list \<Rightarrow> error + int list" where
  "decode data =
     (if length data mod 2 \<noteq> 0 then Inl DecodeOddLength else Inr (decode_loop data))"

section \<open>Protocol constants\<close>

abbreviation (input) ANALOG_MAPPING_QUERY :: int where "ANALOG_MAPPING_QUERY \<equiv> 0x69"
abbreviation (input) ANALOG_MAPPING_RESPONSE :: int where "ANALOG_MAPPING_RESPONSE \<equiv> 0x6A"
abbreviation (input) ANALOG_MESSAGE :: int where "ANALOG_MESSAGE \<equiv> 0xE0"
abbreviation (input) CAPABILITY_QUERY :: int where "CAPABILITY_QUERY \<equiv> 0x6B"
abbreviation (input) CAPABILITY_RESPONSE :: int where "CAPABILITY_RESPONSE \<equiv> 0x6C"
abbreviation (input) DIGITAL_MESSAGE :: int where "DIGITAL_MESSAGE \<equiv> 0x90"
abbreviation (input) END_SYSEX :: int where "END_SYSEX \<equiv> 0xF7"
abbreviation (input) I2C_REPLY :: int where "I2C_REPLY \<equiv> 0x77"
abbreviation (input) PIN_MODE :: int where "PIN_MODE \<equiv> 0xF4"
abbreviation (input) PIN_STATE_RESPONSE :: int where "PIN_STATE_RESPONSE \<equiv> 0x6E"
abbreviation (input) PING_READ :: int where "PING_READ \<equiv> 0x75"
abbreviation (input) QUERY_FIRMWARE :: int where "QUERY_FIRMWARE \<equiv> 0x79"
abbreviation (input) REPORT_VERSION :: int where "REPORT_VERSION \<equiv> 0xF9"
abbreviation (input) START_SYSEX :: int where "START_SYSEX \<equiv> 0xF0"
abbreviation (input) STEPPER :: int where "STEPPER \<equiv> 0x72"
abbreviation (input) STRING_DATA :: int where "STRING_DATA \<equiv> 0x71"
abbreviation (input) MICRODUINO_OLED :: int where "MICRODUINO_OLED \<equiv> 0x01"
abbreviation (input) MICRODUINO_IR :: int where "MICRODUINO_IR \<equiv> 0x07"
abbreviation (input) MICRODUINO_MOTION :: int where "MICRODUINO_MOTION \<equiv> 0x0A"
abbreviation (input) MICRODUINO_IBB :: int where "MICRODUINO_IBB \<equiv> 0x0C"

abbreviation (input) KEY_PRESSED :: int where "KEY_PRESSED \<equiv> 0"
abbreviation (input) KEY_RELEASED :: int where "KEY_RELEASED \<equiv> 1"

abbreviation (input) MODES_INPUT :: int where "MODES_INPUT \<equiv> 0x00"
abbreviation (input) MODES_OUTPUT :: int where "MODES_OUTPUT \<equiv> 0x01"
abbreviation (input) MODES_ANALOG :: int where "MODES_ANALOG \<equiv> 0x02"
abbreviation (input) MODES_PWM :: int where "MODES_PWM \<equiv> 0x03"
abbreviation (input) MODES_PULLUP :: int where "MODES_PULLUP \<equiv> 0x0B"

text \<open>The values of \<open>board.MODES\<close>, in the order of its keys.\<close>

definition MODES :: "int list" where
  "MODES = [0x00, 0x01, 0x02, 0x03, 0x04, 0x05, 0x06, 0x07, 0x08, 0x0A, 0x0B, 0x7F, 0x75, 0x10]"

section \<open>Board state\<close>

text \<open>
  A pin object. \<open>val\<close> is the source's \<open>value\<close>. A property that is absent
  (\<open>undefined\<close>) or \<open>null\<close> is \<open>None\<close>: the code compares \<open>mode\<close> with \<open>===\<close>
  against numbers only, which tells neither apart.
\<close>

record pin =
  supportedModes :: "int list"
  mode :: "int option"
  val :: int
  report :: int
  event :: "int option"
  analogChannel :: "int option"
  state :: "int option"

datatype event_msg =
    Ev_reportversion
  | Ev_analog_read_pin int int
  | Ev_analog_read int int
  | Ev_digital_read_pin int int
  | Ev_digital_read int int
  | Ev_queryfirmware
  | Ev_capability_query
  | Ev_pin_state int
  | Ev_analog_mapping_query
  | Ev_ready
  | Ev_motion_read int int int int
  | Ev_oled_response
  | Ev_buggy_response "int list"
  | Ev_I2C_reply int int "int list"
  | Ev_string "int list"
  | Ev_ping_read int int
  | Ev_stepper_done "int option"
  | Ev_disconnect

text \<open>
  The entries of the module-level table \<open>SYSEX_RESPONSE\<close>: the built-in decoders, and
  the wrapper that \<open>sysexResponse\<close> installs around a user callback (the callback is
  opaque; it is named by a number).
\<close>

datatype handler =
    H_QUERY_FIRMWARE
  | H_CAPABILITY_RESPONSE
  | H_PIN_STATE_RESPONSE
  | H_ANALOG_MAPPING_RESPONSE
  | H_MICRODUINO_IR
  | H_MICRODUINO_MOTION
  | H_MICRODUINO_OLED
  | H_MICRODUINO_IBB
  | H_I2C_REPLY
  | H_STRING_DATA
  | H_PING_READ
  | H_STEPPER
  | H_User nat

text \<open>
  The Board instance together with the module-level variables its decoders use.
  \<^item> \<open>ports\<close> is a JavaScript array used with computed indices: a write at an index that
    is not there creates it, so it is a map; a missing entry reads as \<open>undefined\<close>.
  \<^item> \<open>firmware_name\<close> holds the bytes of \<open>firmware.name\<close> (the string is their UTF-8
    reading; it starts with \<open>sp\<close> exactly when the bytes start with 0x73, 0x70).
  \<^item> \<open>capabilityWaiters\<close> and \<open>mappingWaiters\<close> count the one-shot listeners that the
    board's own handshake has registered on \<open>capability-query\<close> and
    \<open>analog-mapping-query\<close>.
  \<^item> \<open>emitted\<close>, \<open>sent\<close>, \<open>invoked\<close> and \<open>userCalls\<close> are history variables: the events
    raised, the byte sequences handed to \<open>writeToTransport\<close>, the decoders the data
    handler called (table key and frame), and the user callbacks called (with their
    argument), each in order.
  Timers, the \<open>isClean\<close> flag (set by a promise continuation) and the caches of the
  peripheral decoders other than \<open>irCode\<close> are not part of the state modelled.
\<close>

record board =
  currentBuffer :: "int list"
  versionReceived :: bool
  isReady :: bool
  pins :: "pin list"
  ports :: "int \<rightharpoonup> int"
  analogPins :: "nat list"
  version_major :: "int option"
  version_minor :: "int option"
  firmware_name :: "int list option"
  firmware_major :: "int option"
  firmware_minor :: "int option"
  RESOLUTION_ADC :: "int option"
  RESOLUTION_PWM :: "int option"
  SYSEX_RESPONSE :: "int \<rightharpoonup> handler"
  irCode :: int
  capabilityWaiters :: nat
  mappingWaiters :: nat
  emitted :: "event_msg list"
  sent :: "int list list"
  invoked :: "(int \<times> int list) list"
  userCalls :: "(nat \<times> int list) list"

text \<open>\<open>new Array(16).fill(0)\<close>\<close>

definition ports0 :: "int \<rightharpoonup> int" where
  "ports0 = (\<lambda>i. if 0 \<le> i \<and> i < 16 then Some 0 else None)"

definition builtin_SYSEX_RESPONSE :: "int \<rightharpoonup> handler" where
  "builtin_SYSEX_RESPONSE =
     [QUERY_FIRMWARE \<mapsto> H_QUERY_FIRMWARE,
      CAPABILITY_RESPONSE \<mapsto> H_CAPABILITY_RESPONSE,
      PIN_STATE_RESPONSE \<mapsto> H_PIN_STATE_RESPONSE,
      ANALOG_MAPPING_RESPONSE \<mapsto> H_ANALOG_MAPPING_RESPONSE,
      MICRODUINO_IR \<mapsto> H_MICRODUINO_IR,
      MICRODUINO_MOTION \<mapsto> H_MICRODUINO_MOTION,
      MICRODUINO_OLED \<mapsto> H_MICRODUINO_OLED,
      MICRODUINO_IBB \<mapsto> H_MICRODUINO_IBB,
      I2C_REPLY \<mapsto> H_I2C_REPLY,
      STRING_DATA \<mapsto> H_STRING_DATA,
      PING_READ \<mapsto> H_PING_READ,
      STEPPER \<mapsto> H_STEPPER]"

text \<open>The state the constructor \<open>Board(port)\<close> leaves.\<close>

definition new_Board :: board where
  "new_Board =
     \<lparr>currentBuffer = [], versionReceived = False, isReady = False, pins = [],
      ports = ports0, analogPins = [], version_major = None, version_minor = None,
      firmware_name = None, firmware_major = None, firmware_minor = None,
      RESOLUTION_ADC = None, RESOLUTION_PWM = None,
      SYSEX_RESPONSE = builtin_SYSEX_RESPONSE, irCode = 0,
      capabilityWaiters = 0, mappingWaiters = 0,
      emitted = [], sent = [], invoked = [], userCalls = []\<rparr>"

text \<open>\<open>board.pins[i]\<close> for a number \<open>i\<close>: \<open>undefined\<close> outside the array.\<close>

definition pin_at :: "board \<Rightarrow> int \<Rightarrow> pin option" where
  "pin_at b i = (if 0 \<le> i \<and> i < int (length (pins b)) then Some (pins b ! nat i) else None)"

definition set_pin :: "board \<Rightarrow> int \<Rightarrow> pin \<Rightarrow> board" where
  "set_pin b i p = b\<lparr>pins := (pins b)[nat i := p]\<rparr>"

section \<open>Writing to the transport, events and the board's own listeners\<close>

text \<open>
  \<open>writeToTransport\<close> hands the bytes to the transport under the lock \<open>comm\<close>. Operations
  are modelled one at a time, each running to completion, so the lock is free whenever
  it is asked for, and the bytes reach the transport in the order of the calls.
\<close>

definition writeToTransport :: "board \<Rightarrow> int list \<Rightarrow> board" where
  "writeToTransport b data = b\<lparr>sent := sent b @ [data]\<rparr>"

definition init :: "board \<Rightarrow> board" where
  "init b =
     writeToTransport
       (b\<lparr>ports := ports0, pins := map (\<lambda>p. p\<lparr>mode := None\<rparr>) (pins b), irCode := 0\<rparr>)
       [0xF0, 0x7A, 0x64, 0x00, 0xF7]"

definition queryCapabilities :: "board \<Rightarrow> board" where
  "queryCapabilities b =
     writeToTransport (b\<lparr>capabilityWaiters := Suc (capabilityWaiters b)\<rparr>)
       [START_SYSEX, CAPABILITY_QUERY, END_SYSEX]"

definition queryAnalogMapping :: "board \<Rightarrow> board" where
  "queryAnalogMapping b =
     writeToTransport (b\<lparr>mappingWaiters := Suc (mappingWaiters b)\<rparr>)
       [START_SYSEX, ANALOG_MAPPING_QUERY, END_SYSEX]"

text \<open>The function \<open>ready\<close> of the constructor; nothing of the board listens to \<open>ready\<close>.\<close>

definition ready :: "board \<Rightarrow> board" where
  "ready b = (let b1 = init (b\<lparr>isReady := True\<rparr>) in b1\<lparr>emitted := emitted b1 @ [Ev_ready]\<rparr>)"

text \<open>
  \<open>board.emit\<close>: the event is recorded, then the listeners the board itself has
  registered run, synchronously:
  \<^item> on \<open>reportversion\<close>: \<open>versionReceived = true\<close>, and \<open>init()\<close> when the board is ready;
  \<^item> on \<open>queryfirmware\<close>: unless the board is ready, \<open>queryCapabilities\<close> with a callback
    that calls \<open>queryAnalogMapping(ready)\<close>;
  \<^item> on \<open>capability-query\<close> and \<open>analog-mapping-query\<close>: the one-shot callbacks so
    registered, each once.
  Listeners of callers are outside the model.
\<close>

definition emit :: "board \<Rightarrow> event_msg \<Rightarrow> board" where
  "emit b ev =
     (let b1 = b\<lparr>emitted := emitted b @ [ev]\<rparr> in
      case ev of
        Ev_reportversion \<Rightarrow>
          (let b2 = b1\<lparr>versionReceived := True\<rparr> in if isReady b2 then init b2 else b2)
      | Ev_queryfirmware \<Rightarrow> (if isReady b1 then b1 else queryCapabilities b1)
      | Ev_capability_query \<Rightarrow>
          (queryAnalogMapping ^^ capabilityWaiters b1) (b1\<lparr>capabilityWaiters := 0\<rparr>)
      | Ev_analog_mapping_query \<Rightarrow>
          (ready ^^ mappingWaiters b1) (b1\<lparr>mappingWaiters := 0\<rparr>)
      | _ \<Rightarrow> b1)"

text \<open>The transport's \<open>disconnect\<close> signal.\<close>

definition transport_disconnect :: "board \<Rightarrow> board" where
  "transport_disconnect b = emit (b\<lparr>versionReceived := False, isReady := False\<rparr>) Ev_disconnect"

section \<open>Decoders of the short messages (\<open>MIDI_RESPONSE\<close>)\<close>

definition midi_REPORT_VERSION :: "board \<Rightarrow> board" where
  "midi_REPORT_VERSION b =
     emit (b\<lparr>version_major := js_nth (currentBuffer b) 1,
              version_minor := js_nth (currentBuffer b) 2\<rparr>) Ev_reportversion"

definition midi_ANALOG_MESSAGE :: "board \<Rightarrow> board" where
  "midi_ANALOG_MESSAGE b =
     (let buf = currentBuffer b;
          pin = js_and (num (js_nth buf 0)) 0x0F;
          value = js_or (num (js_nth buf 1)) (js_shl (num (js_nth buf 2)) 7);
          b1 = (case js_nth (analogPins b) (nat pin) of
                  None \<Rightarrow> b
                | Some k \<Rightarrow>
                    (case pin_at b (int k) of
                       None \<Rightarrow> b
                     | Some p \<Rightarrow> set_pin b (int k) (p\<lparr>val := value\<rparr>)))
      in emit (emit b1 (Ev_analog_read_pin pin value)) (Ev_analog_read pin value))"

text \<open>
  The statement \<open>if (value) { ports[port] |= bit } else { ports[port] &= ~bit }\<close>,
  which the digital decoder and \<open>digitalWrite\<close> both contain (\<open>m\<close> is the source's
  \<open>bit\<close>).
\<close>

definition write_port_bit :: "board \<Rightarrow> int \<Rightarrow> int \<Rightarrow> bool \<Rightarrow> board" where
  "write_port_bit b port m on =
     (if on then b\<lparr>ports := (ports b)(port \<mapsto> js_or (num (ports b port)) m)\<rparr>
      else b\<lparr>ports := (ports b)(port \<mapsto> js_and (num (ports b port)) (js_not m))\<rparr>)"

text \<open>One round of the loop \<open>for (let i = 0; i < 8; i++)\<close> of the digital decoder.\<close>

definition digital_pin :: "int \<Rightarrow> int \<Rightarrow> nat \<Rightarrow> board \<Rightarrow> board" where
  "digital_pin port portValue i b =
     (let pinNumber = 8 * port + int i;
          bit = js_shl 1 (int i)
      in case pin_at b pinNumber of
           None \<Rightarrow> b
         | Some p \<Rightarrow>
             if mode p = Some MODES_INPUT \<or> mode p = Some MODES_PULLUP then
               (let currentValue = js_and (js_sar portValue (js_and (int i) 0x07)) 0x01;
                    p1 = (if val p = 0 \<and> currentValue = 1
                          then p\<lparr>event := Some KEY_RELEASED\<rparr> else p);
                    p2 = (if val p1 = 1 \<and> currentValue = 0
                          then p1\<lparr>event := Some KEY_PRESSED\<rparr> else p1);
                    p3 = p2\<lparr>val := currentValue\<rparr>;
                    b1 = set_pin b pinNumber p3;
                    b2 = write_port_bit b1 port bit (val p3 \<noteq> 0)
                in emit (emit b2 (Ev_digital_read_pin pinNumber (val p3)))
                     (Ev_digital_read pinNumber (val p3)))
             else b)"

definition midi_DIGITAL_MESSAGE :: "board \<Rightarrow> board" where
  "midi_DIGITAL_MESSAGE b =
     (let buf = currentBuffer b;
          port = js_and (num (js_nth buf 0)) 0x0F;
          portValue = js_or (num (js_nth buf 1)) (js_shl (num (js_nth buf 2)) 7)
      in fold (digital_pin port portValue) [0..<8] b)"

definition MIDI_RESPONSE :: "int \<Rightarrow> (board \<Rightarrow> board) option" where
  "MIDI_RESPONSE response =
     (if response = REPORT_VERSION then Some midi_REPORT_VERSION
      else if response = ANALOG_MESSAGE then Some midi_ANALOG_MESSAGE
      else if response = DIGITAL_MESSAGE then Some midi_DIGITAL_MESSAGE
      else None)"

section \<open>Decoders of the SysEx messages (\<open>SYSEX_RESPONSE\<close>)\<close>

text \<open>
  A decoder either returns or throws; a throw leaves the state as it was at that point.
\<close>

datatype outcome = Returned board | Threw error board

text \<open>\<open>board.currentBuffer.slice(2, -1)\<close>\<close>

definition payload :: "int list \<Rightarrow> int list" where
  "payload buf = butlast (drop 2 buf)"

text \<open>
  The loop \<open>for (i = 4; i < length; i += 2)\<close> with \<open>length = currentBuffer.length - 2\<close>,
  on the buffer from index 4: a round runs while at least three elements are left.
\<close>

fun firmware_loop :: "int list \<Rightarrow> int list" where
  "firmware_loop (x # y # z # rest) =
     js_and (js_or (js_and x 0x7F) (js_shl (js_and y 0x7F) 7)) 0xFF # firmware_loop (z # rest)"
| "firmware_loop _ = []"

text \<open>
  \<open>new Uint8Array(Math.round((length - 4) / 2))\<close> throws a RangeError when the rounded
  size is negative, which is when the frame has fewer than 5 bytes
  (\<open>Math.round(-0.5)\<close> is \<open>-0\<close>).
\<close>

definition sysex_QUERY_FIRMWARE :: "board \<Rightarrow> outcome" where
  "sysex_QUERY_FIRMWARE b =
     (let buf = currentBuffer b in
      if length buf < 5 then Threw RangeError b
      else Returned (emit (b\<lparr>firmware_name := Some (firmware_loop (drop 4 buf)),
                               firmware_major := js_nth buf 2,
                               firmware_minor := js_nth buf 3\<rparr>) Ev_queryfirmware))"

text \<open>The inner function \<open>supportedModes(capability)\<close>.\<close>

definition supportedModes_of :: "int \<Rightarrow> int list" where
  "supportedModes_of capability = filter (\<lambda>m. js_and capability (js_shl 1 m) \<noteq> 0) MODES"

definition new_pin :: "int \<Rightarrow> pin" where
  "new_pin capability =
     \<lparr>supportedModes = supportedModes_of capability, mode = None, val = 0, report = 1,
      event = None, analogChannel = None, state = None\<rparr>"

text \<open>
  The statements under \<open>if (n === 0)\<close> that touch the board: the first entry that
  declares ANALOG (resp. PWM) fixes the ADC (resp. PWM) resolution.
\<close>

definition note_resolution :: "int \<Rightarrow> int \<Rightarrow> board \<Rightarrow> board" where
  "note_resolution pmode resolution b =
     (let b1 = (if pmode = MODES_ANALOG \<and> RESOLUTION_ADC b = None
                then b\<lparr>RESOLUTION_ADC := Some resolution\<rparr> else b)
      in if pmode = MODES_PWM \<and> RESOLUTION_PWM b1 = None
         then b1\<lparr>RESOLUTION_PWM := Some resolution\<rparr> else b1)"

text \<open>
  The loop \<open>for (i = 2, n = 0; i < currentBuffer.length - 1; i++)\<close>, on the buffer from
  index \<open>i\<close>: \<open>x\<close> is \<open>currentBuffer[i]\<close> and \<open>y\<close> is \<open>currentBuffer[i + 1]\<close>; a round
  runs while at least two elements are left. The test for 127 comes before the test of
  \<open>n\<close>, so every byte 127 met closes a pin.
\<close>

fun capability_loop :: "int list \<Rightarrow> int \<Rightarrow> int \<Rightarrow> board \<Rightarrow> board" where
  "capability_loop (x # y # rest) capability n b =
     (if x = 127 then
        capability_loop (y # rest) 0 0 (b\<lparr>pins := pins b @ [new_pin capability]\<rparr>)
      else if n = 0 then
        capability_loop (y # rest) (js_or capability (js_shl 1 x)) (js_xor n 1)
          (note_resolution x (js_shl 1 y - 1) b)
      else capability_loop (y # rest) capability (js_xor n 1) b)"
| "capability_loop _ capability n b = b"

definition sysex_CAPABILITY_RESPONSE :: "board \<Rightarrow> outcome" where
  "sysex_CAPABILITY_RESPONSE b =
     (let b1 = b\<lparr>ports := ports0, pins := []\<rparr>;
          b2 = (if length (pins b1) = 0
                then capability_loop (drop 2 (currentBuffer b1)) 0 0 b1 else b1)
      in Returned (emit b2 Ev_capability_query))"

definition sysex_PIN_STATE_RESPONSE :: "board \<Rightarrow> outcome" where
  "sysex_PIN_STATE_RESPONSE b =
     (let buf = currentBuffer b in
      case js_nth buf 2 of
        None \<Rightarrow> Threw TypeError b
      | Some pin \<Rightarrow>
          (case pin_at b pin of
             None \<Rightarrow> Threw TypeError b
           | Some p \<Rightarrow>
               (let p1 = p\<lparr>mode := js_nth buf 3, state := js_nth buf 4\<rparr>;
                    p2 = (if length buf > 6
                          then p1\<lparr>state := Some (js_or (num (state p1))
                                                  (js_shl (num (js_nth buf 5)) 7))\<rparr>
                          else p1);
                    p3 = (if length buf > 7
                          then p2\<lparr>state := Some (js_or (num (state p2))
                                                  (js_shl (num (js_nth buf 6)) 14))\<rparr>
                          else p2)
                in Returned (emit (set_pin b pin p3) (Ev_pin_state pin)))))"

text \<open>
  The loop of the analog-mapping decoder over \<open>currentBuffer[2 .. length - 2]\<close>;
  \<open>board.pins[pin].analogChannel = ...\<close> throws a TypeError when there is no such pin.
\<close>

fun mapping_loop :: "int list \<Rightarrow> nat \<Rightarrow> board \<Rightarrow> outcome" where
  "mapping_loop [] pin b = Returned b"
| "mapping_loop (currentValue # rest) pin b =
     (if pin < length (pins b) then
        mapping_loop rest (Suc pin)
          (b\<lparr>pins := (pins b)[pin := (pins b ! pin)\<lparr>analogChannel := Some currentValue\<rparr>],
             analogPins := (if currentValue \<noteq> 127 then analogPins b @ [pin]
                            else analogPins b)\<rparr>)
      else Threw TypeError b)"

definition sysex_ANALOG_MAPPING_RESPONSE :: "board \<Rightarrow> outcome" where
  "sysex_ANALOG_MAPPING_RESPONSE b =
     (case mapping_loop (payload (currentBuffer b)) 0 (b\<lparr>analogPins := []\<rparr>) of
        Returned b1 \<Rightarrow> Returned (emit b1 Ev_analog_mapping_query)
      | Threw e b1 \<Rightarrow> Threw e b1)"

subsection \<open>Peripheral decoders\<close>

text \<open>
  The decoders of the peripherals keep their results in module-level caches and raise
  events; they do not touch the Board object. They are modelled by the events they raise
  and by the conditions under which they throw; of their caches only \<open>irCode\<close> is kept.
\<close>

definition irKeys :: "int list" where
  "irKeys = [0x1FE48B7, 0x1FE807F, 0x1FE40BF, 0x1FEC03F, 0x1FE20DF, 0x1FE609F, 0x1FEA05F,
             0x1FED827, 0x1FEE01F, 0x1FE906F, 0x1FE10EF, 0x1FE50AF, 0x1FEF807, 0x1FE708F,
             0x1FEB04F, 0x1FE30CF]"

definition ir_code :: "int list \<Rightarrow> int" where
  "ir_code buffer =
     fold (\<lambda>i currentCode. js_shl currentCode 8 + (buffer ! (i * 2) + js_shl (buffer ! (i * 2 + 1)) 7))
       [3, 2, 1, 0] 0"

definition sysex_MICRODUINO_IR :: "board \<Rightarrow> outcome" where
  "sysex_MICRODUINO_IR b =
     (let buffer = payload (currentBuffer b) in
      if length buffer < 8 then Returned b
      else
        (let currentCode = ir_code buffer in
         if currentCode = 0 then Returned b
         else if currentCode = 0xFFFFFFFF \<or> currentCode = - 1 then Returned b
         else if irCode b > 0 \<and> irCode b \<notin> set irKeys then Threw TypeError b
         else if currentCode \<notin> set irKeys then Threw TypeError b
         else Returned (b\<lparr>irCode := currentCode\<rparr>)))"

definition motion_axis :: "int list \<Rightarrow> nat \<Rightarrow> int" where
  "motion_axis buffer k =
     (let data = (buffer ! k + buffer ! (k + 1) * 128)
                 + ((buffer ! (k + 2) + buffer ! (k + 3) * 128) * 256)
      in if data > 0x7FFF then data - 0xFFFF else data)"

definition sysex_MICRODUINO_MOTION :: "board \<Rightarrow> outcome" where
  "sysex_MICRODUINO_MOTION b =
     (let buffer = payload (currentBuffer b) in
      if length buffer < 13 then Returned b
      else
        (let type = hd buffer; shifted = tl buffer
         in Returned (emit b (Ev_motion_read type (motion_axis shifted 0)
                                (motion_axis shifted 4) (motion_axis shifted 8)))))"

definition sysex_MICRODUINO_OLED :: "board \<Rightarrow> outcome" where
  "sysex_MICRODUINO_OLED b = Returned (emit b Ev_oled_response)"

definition sysex_MICRODUINO_IBB :: "board \<Rightarrow> outcome" where
  "sysex_MICRODUINO_IBB b = Returned (emit b (Ev_buggy_response (currentBuffer b)))"

text \<open>
  The loop \<open>for (i = 6; i < currentBuffer.length - 1; i += 2)\<close>, on the buffer from
  index 6: a round runs while at least two elements are left.
\<close>

fun i2c_loop :: "int list \<Rightarrow> int list" where
  "i2c_loop (x # y # rest) = js_or x (js_shl y 7) # i2c_loop rest"
| "i2c_loop _ = []"

definition pair7 :: "int list \<Rightarrow> nat \<Rightarrow> int" where
  "pair7 buf i =
     js_or (js_and (num (js_nth buf i)) 0x7F) (js_shl (js_and (num (js_nth buf (i + 1))) 0x7F) 7)"

text \<open>
  \<open>ideaBoardKeyParser\<close> reads \<open>reply[0].toString(2)\<close> for address 0x56, register 0x09,
  and throws a TypeError when the reply is empty.
\<close>

definition sysex_I2C_REPLY :: "board \<Rightarrow> outcome" where
  "sysex_I2C_REPLY b =
     (let buf = currentBuffer b;
          address = pair7 buf 2;
          register = pair7 buf 4;
          reply = i2c_loop (drop 6 buf)
      in if address = 0x56 \<and> register = 0x09 \<and> reply = [] then Threw TypeError b
         else Returned (emit b (Ev_I2C_reply address register reply)))"

text \<open>The text of a string message is kept as its bytes, the zero bytes removed.\<close>

definition sysex_STRING_DATA :: "board \<Rightarrow> outcome" where
  "sysex_STRING_DATA b =
     Returned (emit b (Ev_string (filter (\<lambda>c. c \<noteq> 0) (payload (currentBuffer b)))))"

definition sysex_PING_READ :: "board \<Rightarrow> outcome" where
  "sysex_PING_READ b =
     (let buf = currentBuffer b;
          pin = pair7 buf 2;
          duration = js_shl (pair7 buf 4) 24 + js_shl (pair7 buf 6) 16
                     + js_shl (pair7 buf 8) 8 + pair7 buf 10
      in Returned (emit b (Ev_ping_read pin duration)))"

definition sysex_STEPPER :: "board \<Rightarrow> outcome" where
  "sysex_STEPPER b = Returned (emit b (Ev_stepper_done (js_nth (currentBuffer b) 2)))"

text \<open>
  The wrapper installed by \<open>sysexResponse\<close>:
  \<open>handler.call(board, board.currentBuffer.slice(2, -1))\<close>.
\<close>

definition sysex_user :: "nat \<Rightarrow> board \<Rightarrow> outcome" where
  "sysex_user h b = Returned (b\<lparr>userCalls := userCalls b @ [(h, payload (currentBuffer b))]\<rparr>)"

fun run_handler :: "handler \<Rightarrow> board \<Rightarrow> outcome" where
  "run_handler H_QUERY_FIRMWARE b = sysex_QUERY_FIRMWARE b"
| "run_handler H_CAPABILITY_RESPONSE b = sysex_CAPABILITY_RESPONSE b"
| "run_handler H_PIN_STATE_RESPONSE b = sysex_PIN_STATE_RESPONSE b"
| "run_handler H_ANALOG_MAPPING_RESPONSE b = sysex_ANALOG_MAPPING_RESPONSE b"
| "run_handler H_MICRODUINO_IR b = sysex_MICRODUINO_IR b"
| "run_handler H_MICRODUINO_MOTION b = sysex_MICRODUINO_MOTION b"
| "run_handler H_MICRODUINO_OLED b = sysex_MICRODUINO_OLED b"
| "run_handler H_MICRODUINO_IBB b = sysex_MICRODUINO_IBB b"
| "run_handler H_I2C_REPLY b = sysex_I2C_REPLY b"
| "run_handler H_STRING_DATA b = sysex_STRING_DATA b"
| "run_handler H_PING_READ b = sysex_PING_READ b"
| "run_handler H_STEPPER b = sysex_STEPPER b"
| "run_handler (H_User h) b = sysex_user h b"

section \<open>The transport's data handler\<close>

definition clear_buffer :: "board \<Rightarrow> board" where
  "clear_buffer b = b\<lparr>currentBuffer := []\<rparr>"

text \<open>\<open>response = first < START_SYSEX ? (first & START_SYSEX) : first\<close>\<close>

definition response_of :: "int \<Rightarrow> int" where
  "response_of first = (if first < START_SYSEX then js_and first START_SYSEX else first)"

text \<open>
  The branch for a buffer \<open>[START_SYSEX, ..., END_SYSEX]\<close>. The buffer is emptied after
  the decoder has returned; a decoder that throws leaves the handler before that.
\<close>

definition sysex_complete :: "board \<Rightarrow> outcome" where
  "sysex_complete b =
     (case (case js_nth (currentBuffer b) 1 of
              None \<Rightarrow> None
            | Some k \<Rightarrow> map_option (Pair k) (SYSEX_RESPONSE b k)) of
        Some (k, handler) \<Rightarrow>
          (if versionReceived b then
             (case run_handler handler (b\<lparr>invoked := invoked b @ [(k, currentBuffer b)]\<rparr>) of
                Returned b1 \<Rightarrow> Returned (clear_buffer b1)
              | Threw e b1 \<Rightarrow> Threw e b1)
           else Returned (clear_buffer b))
      | None \<Rightarrow> Returned (clear_buffer b))"

text \<open>
  The test \<open>currentBuffer.length === 3 && first !== START_SYSEX\<close> and what follows it.
  No decoder of a short message throws.
\<close>

definition midi_complete :: "int \<Rightarrow> board \<Rightarrow> board" where
  "midi_complete first b =
     (let response = response_of first in
      case MIDI_RESPONSE response of
        Some handler \<Rightarrow>
          (if versionReceived b \<or> first = REPORT_VERSION then
             clear_buffer
               (handler (b\<lparr>versionReceived := True,
                            invoked := invoked b @ [(response, currentBuffer b)]\<rparr>))
           else clear_buffer b)
      | None \<Rightarrow> clear_buffer b)"

text \<open>The body of \<open>for (let i = 0; i < data.length; i++)\<close> for \<open>byte = data[i]\<close>.\<close>

definition data_byte :: "board \<Rightarrow> int \<Rightarrow> outcome" where
  "data_byte b byte =
     (if currentBuffer b = [] \<and> (byte = 0 \<or> (\<not> versionReceived b \<and> byte \<noteq> REPORT_VERSION))
      then Returned b
      else
        (let b1 = b\<lparr>currentBuffer := currentBuffer b @ [byte]\<rparr>;
             first = hd (currentBuffer b1);
             last = byte
         in case (if first = START_SYSEX \<and> last = END_SYSEX then sysex_complete b1
                  else if first = START_SYSEX \<and> length (currentBuffer b1) > 0 then
                    Returned (if byte > 0x7F then b1\<lparr>currentBuffer := [byte]\<rparr> else b1)
                  else if first \<noteq> START_SYSEX then
                    (let response = response_of first in
                     Returned (if response \<noteq> REPORT_VERSION \<and> response \<noteq> ANALOG_MESSAGE
                                  \<and> response \<noteq> DIGITAL_MESSAGE
                               then clear_buffer b1 else b1))
                  else Returned b1) of
              Threw e b2 \<Rightarrow> Threw e b2
            | Returned b2 \<Rightarrow>
                Returned (if length (currentBuffer b2) = 3 \<and> first \<noteq> START_SYSEX
                          then midi_complete first b2 else b2)))"

text \<open>
  The handler of the transport's \<open>data\<close> event on one chunk. An exception thrown by a
  decoder leaves the loop: the rest of the chunk is not read.
\<close>

fun on_data :: "board \<Rightarrow> int list \<Rightarrow> outcome" where
  "on_data b [] = Returned b"
| "on_data b (byte # rest) =
     (case data_byte b byte of
        Returned b1 \<Rightarrow> on_data b1 rest
      | Threw e b1 \<Rightarrow> Threw e b1)"

definition state_of :: "outcome \<Rightarrow> board" where
  "state_of r = (case r of Returned b \<Rightarrow> b | Threw e b \<Rightarrow> b)"

text \<open>
  The transport delivers chunks one after the other; the handler runs on each from the
  state the previous call left, also when that call ended with an exception.
\<close>

fun deliver :: "board \<Rightarrow> int list list \<Rightarrow> board" where
  "deliver b [] = b"
| "deliver b (chunk # chunks) = deliver (state_of (on_data b chunk)) chunks"

section \<open>Commands\<close>

text \<open>
  What the promise a command returns comes to, once its writes have settled: resolved
  with a value, rejected with an error, or left waiting for an event or a timer. A
  command can also throw before it returns a promise. The transport is a parameter
  \<open>tw\<close>: \<open>tw data\<close> tells whether the write of \<open>data\<close> resolves.
\<close>

datatype 'a promise = Resolved 'a | Rejected error | Waiting | Thrown error

definition startsWith_sp :: "board \<Rightarrow> bool" where
  "startsWith_sp b =
     (case firmware_name b of None \<Rightarrow> False | Some n \<Rightarrow> n \<noteq> [] \<and> take 2 n = [0x73, 0x70])"

text \<open>The renumbering at the head of \<open>digitalWrite\<close> and \<open>digitalRead\<close>.\<close>

definition remap_pin :: "board \<Rightarrow> int \<Rightarrow> int" where
  "remap_pin b pin = (if startsWith_sp b \<and> pin \<ge> 14 \<and> pin \<le> 21 then pin + 10 else pin)"

text \<open>
  \<open>pinMode\<close>: the write, then \<open>this.pins[pin].mode = mode\<close> in the continuation, which
  throws (rejecting the promise) when there is no such pin.
\<close>

definition pinMode :: "(int list \<Rightarrow> bool) \<Rightarrow> board \<Rightarrow> int \<Rightarrow> int \<Rightarrow> unit promise \<times> board" where
  "pinMode tw b pin pmode =
     (let b1 = writeToTransport b [PIN_MODE, pin, pmode] in
      if \<not> tw [PIN_MODE, pin, pmode] then (Rejected TransportWriteFailed, b1)
      else case pin_at b1 pin of
             None \<Rightarrow> (Rejected TypeError, b1)
           | Some p \<Rightarrow> (Resolved (), set_pin b1 pin (p\<lparr>mode := Some pmode\<rparr>)))"

definition digitalWrite :: "(int list \<Rightarrow> bool) \<Rightarrow> board \<Rightarrow> int \<Rightarrow> int \<Rightarrow> unit promise \<times> board" where
  "digitalWrite tw b pin0 value =
     (let pin = remap_pin b pin0;
          port = js_sar pin 3;
          bit = js_shl 1 (js_and pin 0x07);
          b1 = write_port_bit b port bit (value \<noteq> 0)
      in if int (length (pins b1)) > pin then
           (case pin_at b1 pin of
              None \<Rightarrow> (Thrown TypeError, b1)
            | Some p \<Rightarrow>
                (let setmode = (mode p \<noteq> Some MODES_OUTPUT);
                     dowrite = (val p \<noteq> value \<or> setmode);
                     (r1, b2) = (if setmode then pinMode tw b1 pin MODES_OUTPUT
                                 else (Resolved (), b1))
                 in case r1 of
                      Resolved u \<Rightarrow>
                        (if dowrite then
                           (let msg = [js_or DIGITAL_MESSAGE port,
                                       js_and (num (ports b2 port)) 0x7F,
                                       js_and (js_sar (num (ports b2 port)) 7) 0x7F];
                                b3 = writeToTransport b2 msg
                            in if \<not> tw msg then (Rejected TransportWriteFailed, b3)
                               else case pin_at b3 pin of
                                      None \<Rightarrow> (Rejected TypeError, b3)
                                    | Some q \<Rightarrow> (Resolved (), set_pin b3 pin (q\<lparr>val := value\<rparr>)))
                         else (Resolved (), b2))
                    | _ \<Rightarrow> (r1, b2)))
         else (Rejected InvalidDigitalWrite, b1))"

text \<open>
  \<open>digitalRead\<close>: for a pin not in INPUT mode the promise waits for the pin's
  \<open>digital-read\<close> event or the one-second timer; \<open>pinMode\<close> and the report request are
  both submitted at once, and the outcome of \<open>pinMode\<close> is not looked at.
\<close>

definition digitalRead :: "(int list \<Rightarrow> bool) \<Rightarrow> board \<Rightarrow> int \<Rightarrow> int promise \<times> board" where
  "digitalRead tw b pin0 =
     (let pin = remap_pin b pin0
      in if int (length (pins b)) > pin then
           (case pin_at b pin of
              None \<Rightarrow> (Thrown TypeError, b)
            | Some p \<Rightarrow>
                if mode p \<noteq> Some MODES_INPUT then
                  (let b1 = snd (pinMode tw b pin MODES_INPUT);
                       b2 = (if startsWith_sp b1
                             then writeToTransport b1 [0xD0, 0x01, 0xD1, 0x01, 0xD2, 0x01, 0xD3, 0x01]
                             else writeToTransport b1 [0xD0, 0x01, 0xD1, 0x01, 0xD2, 0x01])
                   in (Waiting, b2))
                else (Resolved (val p), b))
         else (Rejected InvalidDigitalRead, b))"

text \<open>
  \<open>sysexResponse(commandByte, handler)\<close>: throws when the table has an entry for the
  byte, and installs the wrapper around the callback otherwise.
\<close>

definition sysexResponse :: "board \<Rightarrow> int \<Rightarrow> nat \<Rightarrow> error + board" where
  "sysexResponse b commandByte h =
     (case SYSEX_RESPONSE b commandByte of
        Some existing \<Rightarrow> Inl (SysexByteTaken commandByte)
      | None \<Rightarrow> Inr (b\<lparr>SYSEX_RESPONSE := (SYSEX_RESPONSE b)(commandByte \<mapsto> H_User h)\<rparr>))"

section \<open>States used as examples\<close>

text \<open>
  A board after the version report 2.5 and a capability reply that declares one pin
  supporting INPUT and OUTPUT, each at 1-bit resolution.
\<close>

definition board_one_pin :: board where
  "board_one_pin =
     state_of (on_data new_Board [0xF9, 2, 5, 0xF0, 0x6C, 0, 1, 1, 1, 0x7F, 0xF7])"

text \<open>
  A board after the version report 2.5 and a firmware reply whose name is the two
  characters \<open>sp\<close>.
\<close>

definition board_sp :: board where
  "board_sp =
     state_of (on_data new_Board
       [0xF9, 2, 5, 0xF0, 0x79, 2, 5, 0x73, 0, 0x70, 0, 0xF7])"

text \<open>A board with 32 pins that support INPUT and OUTPUT, and no firmware name.\<close>

definition board_32_pins :: board where
  "board_32_pins = new_Board\<lparr>pins := replicate 32 (new_pin 3)\<rparr>"

text \<open>\<open>board_one_pin\<close> after \<open>digitalRead(0)\<close>, which puts pin 0 in INPUT mode.\<close>

definition board_input_pin :: board where
  "board_input_pin = snd (digitalRead (\<lambda>d. True) board_one_pin 0)"

section \<open>Notions used in the statements\<close>

definition returns :: "outcome \<Rightarrow> bool" where
  "returns r = (case r of Returned b \<Rightarrow> True | Threw e b \<Rightarrow> False)"

text \<open>
  What no decoder changes: the frame in the buffer, the record of calls made by the data
  handler, and the dispatch table.
\<close>

definition same_frame :: "board \<Rightarrow> board \<Rightarrow> bool" where
  "same_frame b b' \<longleftrightarrow>
     invoked b' = invoked b \<and> currentBuffer b' = currentBuffer b
     \<and> SYSEX_RESPONSE b' = SYSEX_RESPONSE b"

text \<open>A pin whose current mode is INPUT or PULLUP.\<close>

definition input_mode :: "pin \<Rightarrow> bool" where
  "input_mode p \<longleftrightarrow> mode p = Some MODES_INPUT \<or> mode p = Some MODES_PULLUP"

text \<open>
  What the specification says a digital message does to pin \<open>i\<close> of the addressed port
  when the pin is in INPUT or PULLUP mode: the value becomes bit \<open>i\<close> of the port value;
  a change from 0 to 1 sets the event to KEY_RELEASED, a change from 1 to 0 sets it to
  KEY_PRESSED. It is compared below with what \<open>midi_DIGITAL_MESSAGE\<close> computes.
\<close>

definition spec_digital_pin :: "int \<Rightarrow> nat \<Rightarrow> pin \<Rightarrow> pin" where
  "spec_digital_pin portValue i p =
     p\<lparr>event := (if val p = 0 \<and> bit portValue i then Some KEY_RELEASED
                 else if val p = 1 \<and> \<not> bit portValue i then Some KEY_PRESSED
                 else event p),
       val := (if bit portValue i then 1 else 0)\<rparr>"

definition input_pin :: "board \<Rightarrow> int \<Rightarrow> bool" where
  "input_pin b k = (case pin_at b k of None \<Rightarrow> False | Some p \<Rightarrow> input_mode p)"

text \<open>The two events the digital decoder raises for a pin.\<close>

definition digital_events :: "int \<Rightarrow> int \<Rightarrow> event_msg list" where
  "digital_events pinNumber v = [Ev_digital_read_pin pinNumber v, Ev_digital_read pinNumber v]"

section \<open>Arithmetic of the 7-bit split\<close>

lemma to_int32_id: "- 2147483648 \<le> x \<Longrightarrow> x < 2147483648 \<Longrightarrow> to_int32 x = x"
  by (simp add: to_int32_def)

lemma and_127_take_bit: "(x::int) AND 127 = take_bit 7 x"
  by (simp add: take_bit_eq_mask mask_eq_exp_minus_1)

lemma take_bit_7_bounds: "0 \<le> take_bit 7 (x::int) \<and> take_bit 7 x < 128"
  using take_bit_int_less_exp[of 7 x] by simp

lemma join_7bit_halves:
  assumes "0 \<le> v" "v < 16384"
  shows "take_bit 7 v OR push_bit 7 (take_bit 7 (drop_bit 7 v)) = (v::int)"
proof -
  have "take_bit 14 v = v"
    using assms by (simp add: take_bit_int_eq_self)
  moreover have "take_bit 7 v OR push_bit 7 (take_bit 7 (drop_bit 7 v)) = take_bit 14 v"
    by (rule bit_eqI) (auto simp add: bit_simps)
  ultimately show ?thesis by simp
qed

lemma js_low7:
  assumes "0 \<le> v" "v < 16384"
  shows "js_and v 0x7F = v AND 127"
  using assms by (simp add: js_and_def to_int32_id)

lemma js_high7:
  assumes "0 \<le> v" "v < 16384"
  shows "js_and (js_sar v 7) 0x7F = drop_bit 7 v AND 127"
proof -
  have "0 \<le> drop_bit 7 v"
    using assms by simp
  moreover have "drop_bit 7 v < 128"
    using assms unfolding drop_bit_eq_div by simp
  ultimately have d: "to_int32 (drop_bit 7 v) = drop_bit 7 v"
    by (intro to_int32_id) linarith+
  have "js_sar v 7 = drop_bit 7 v"
    using assms by (simp add: js_sar_def to_int32_id)
  moreover have "to_int32 127 = 127"
    by (simp add: to_int32_def)
  ultimately show ?thesis
    by (simp add: js_and_def d)
qed

lemma js_join:
  assumes "0 \<le> v" "v < 16384"
  shows "js_or (v AND 127) (js_shl (drop_bit 7 v AND 127) 7) = v"
proof -
  let ?l = "take_bit 7 v"
  let ?h = "take_bit 7 (drop_bit 7 v)"
  have h: "to_int32 ?h = ?h"
    using take_bit_7_bounds[of "drop_bit 7 v"] by (intro to_int32_id) linarith+
  have l: "to_int32 ?l = ?l"
    using take_bit_7_bounds[of v] by (intro to_int32_id) linarith+
  have "0 \<le> push_bit 7 ?h \<and> push_bit 7 ?h < 16384"
    using take_bit_7_bounds[of "drop_bit 7 v"] by (simp add: push_bit_eq_mult)
  then have p: "to_int32 (push_bit 7 ?h) = push_bit 7 ?h"
    by (intro to_int32_id) linarith+
  have shl: "js_shl ?h 7 = push_bit 7 ?h"
    by (simp add: js_shl_def h p)
  show ?thesis
    using assms by (simp add: and_127_take_bit shl js_or_def l p join_7bit_halves)
qed

section \<open>Encoding then decoding a 14-bit value\<close>

text \<open>
  C3. For every integer \<open>v\<close> in \<open>[0, 16383]\<close>, \<open>Board.encode\<close> applied to \<open>[v]\<close> emits
  the two 7-bit bytes \<open>[v & 0x7F, (v >> 7) & 0x7F]\<close>, least significant first, and
  \<open>Board.decode\<close> applied to those two bytes returns \<open>[v]\<close>.
\<close>

theorem encode_decode_14bit:
  assumes "0 \<le> v" "v \<le> 16383"
  shows "encode [v] = [v AND 127, drop_bit 7 v AND 127] \<and> decode (encode [v]) = Inr [v]"
proof -
  have r: "0 \<le> v" "v < 16384" using assms by simp_all
  have e: "encode [v] = [v AND 127, drop_bit 7 v AND 127]"
    by (simp add: js_low7[OF r] js_high7[OF r])
  have "decode [v AND 127, drop_bit 7 v AND 127] = Inr [v]"
    by (simp add: decode_def js_join[OF r])
  with e show ?thesis by simp
qed

theorem encode_decode_14bit_witness:
  "(0::int) \<le> 300 \<and> (300::int) \<le> 16383 \<and> encode [300] = [44, 2] \<and> decode (encode [300]) = Inr [300]"
  using encode_decode_14bit [of 300]
  by (simp add: js_and_def js_sar_def to_int32_def)

section \<open>Evaluating the data handler on concrete bytes\<close>

lemmas parser_defs = data_byte_def sysex_complete_def midi_complete_def response_of_def
  clear_buffer_def MIDI_RESPONSE_def midi_REPORT_VERSION_def emit_def state_of_def js_nth_def
  new_Board_def builtin_SYSEX_RESPONSE_def sysex_ANALOG_MAPPING_RESPONSE_def payload_def
  js_and_def to_int32_def

section \<open>Chunk boundaries\<close>

lemma on_data_append:
  "on_data b (xs @ ys) =
     (case on_data b xs of Returned b1 \<Rightarrow> on_data b1 ys | Threw e b1 \<Rightarrow> Threw e b1)"
  by (induction xs arbitrary: b) (auto split: outcome.splits)

lemma deliver_append: "deliver b (cs @ ds) = deliver (deliver b cs) ds"
  by (induction cs arbitrary: b) auto

lemma deliver_returns:
  "returns (on_data b (concat cs)) \<Longrightarrow> on_data b (concat cs) = Returned (deliver b cs)"
proof (induction cs arbitrary: b)
  case Nil
  then show ?case by simp
next
  case (Cons c cs)
  from Cons.prems obtain b1 where c: "on_data b c = Returned b1"
    by (auto simp: on_data_append returns_def split: outcome.splits)
  with Cons.prems have "returns (on_data b1 (concat cs))"
    by (simp add: on_data_append)
  from Cons.IH[OF this] c show ?case
    by (simp add: on_data_append state_of_def)
qed

text \<open>
  Where no decoder throws, a byte sequence is read in the same way however it is cut into
  chunks: a round of the handler's loop depends on the state and on the byte only.
\<close>

lemma chunks_without_exception:
  assumes "returns (on_data b (concat (butlast chunks)))"
  shows "deliver b chunks = deliver b [concat chunks]"
proof (cases "chunks = []")
  case True
  then show ?thesis by (simp add: state_of_def)
next
  case False
  then have split: "chunks = butlast chunks @ [last chunks]" by simp
  have pre: "on_data b (concat (butlast chunks)) = Returned (deliver b (butlast chunks))"
    using assms by (rule deliver_returns)
  have "deliver b chunks = deliver (deliver b (butlast chunks)) [last chunks]"
    by (subst split) (simp only: deliver_append)
  moreover have "concat chunks = concat (butlast chunks) @ last chunks"
    by (subst split) simp
  ultimately show ?thesis
    by (simp add: on_data_append pre)
qed

text \<open>
  C1. A byte sequence delivered in consecutive chunks is to give the same decoded messages
  and the same final state as the sequence delivered as one chunk. The code does not
  keep this on the bytes F9 02 05 F0 6A 00 F7 F9 02 06 sent to a new board. The
  analog-mapping reply F0 6A 00 F7 names pin 0, which the board does not have; the
  decoder assigns to \<open>board.pins[pin].analogChannel\<close> without the test that the decoders
  of the analog and digital messages make, and throws a TypeError that nothing catches.
  The exception ends the handler's loop. Delivered as one chunk, the version report after
  the reply is never read: two decoders have been called, the version is 2.5 and the
  reply is still in the buffer. Delivered in a chunk of its own, the version report is
  decoded: three decoders have been called, the version is 2.6 and the buffer is empty.
\<close>

theorem chunk_split_divergence:
  "\<not> returns (on_data new_Board [0xF9, 2, 5, 0xF0, 0x6A, 0, 0xF7, 0xF9, 2, 6])
   \<and> version_minor (deliver new_Board [[0xF9, 2, 5, 0xF0, 0x6A, 0, 0xF7, 0xF9, 2, 6]]) = Some 5
   \<and> emitted (deliver new_Board [[0xF9, 2, 5, 0xF0, 0x6A, 0, 0xF7, 0xF9, 2, 6]])
       = [Ev_reportversion]
   \<and> invoked (deliver new_Board [[0xF9, 2, 5, 0xF0, 0x6A, 0, 0xF7, 0xF9, 2, 6]])
       = [(0xF9, [0xF9, 2, 5]), (0x6A, [0xF0, 0x6A, 0, 0xF7])]
   \<and> currentBuffer (deliver new_Board [[0xF9, 2, 5, 0xF0, 0x6A, 0, 0xF7, 0xF9, 2, 6]])
       = [0xF0, 0x6A, 0, 0xF7]
   \<and> version_minor (deliver new_Board [[0xF9, 2, 5, 0xF0, 0x6A, 0, 0xF7], [0xF9, 2, 6]]) = Some 6
   \<and> emitted (deliver new_Board [[0xF9, 2, 5, 0xF0, 0x6A, 0, 0xF7], [0xF9, 2, 6]])
       = [Ev_reportversion, Ev_reportversion]
   \<and> invoked (deliver new_Board [[0xF9, 2, 5, 0xF0, 0x6A, 0, 0xF7], [0xF9, 2, 6]])
       = [(0xF9, [0xF9, 2, 5]), (0x6A, [0xF0, 0x6A, 0, 0xF7]), (0xF9, [0xF9, 2, 6])]
   \<and> currentBuffer (deliver new_Board [[0xF9, 2, 5, 0xF0, 0x6A, 0, 0xF7], [0xF9, 2, 6]]) = []"
  by (simp add: parser_defs returns_def)

section \<open>What the decoders leave alone\<close>

lemma same_frame_refl [simp]: "same_frame b b"
  by (simp add: same_frame_def)

lemma same_frame_trans: "same_frame a b \<Longrightarrow> same_frame b c \<Longrightarrow> same_frame a c"
  by (simp add: same_frame_def)

lemma same_frame_funpow:
  assumes "\<And>s. same_frame s (f s)"
  shows "same_frame b ((f ^^ n) b)"
proof (induction n)
  case 0
  show ?case by simp
next
  case (Suc n)
  show ?case using Suc assms[of "(f ^^ n) b"] by (auto intro: same_frame_trans)
qed

lemma same_frame_init: "same_frame b (init b)"
  by (simp add: same_frame_def init_def writeToTransport_def)

lemma same_frame_queryCapabilities: "same_frame b (queryCapabilities b)"
  by (simp add: same_frame_def queryCapabilities_def writeToTransport_def)

lemma same_frame_queryAnalogMapping: "same_frame b (queryAnalogMapping b)"
  by (simp add: same_frame_def queryAnalogMapping_def writeToTransport_def)

lemma same_frame_ready: "same_frame b (ready b)"
  by (simp add: same_frame_def ready_def init_def writeToTransport_def Let_def)

lemma same_frame_emit: "same_frame b (emit b ev)"
proof -
  let ?b1 = "b\<lparr>emitted := emitted b @ [ev]\<rparr>"
  have 0: "same_frame b ?b1" by (simp add: same_frame_def)
  have 1: "same_frame b (?b1\<lparr>versionReceived := True\<rparr>)" by (simp add: same_frame_def)
  have 2: "same_frame b (init (?b1\<lparr>versionReceived := True\<rparr>))"
    by (rule same_frame_trans[OF 1 same_frame_init])
  have 3: "same_frame b (queryCapabilities ?b1)"
    by (rule same_frame_trans[OF 0 same_frame_queryCapabilities])
  have 4: "same_frame b ((queryAnalogMapping ^^ n) (?b1\<lparr>capabilityWaiters := 0\<rparr>))" for n
    by (rule same_frame_trans[OF _ same_frame_funpow[OF same_frame_queryAnalogMapping]])
       (simp add: same_frame_def)
  have 5: "same_frame b ((ready ^^ n) (?b1\<lparr>mappingWaiters := 0\<rparr>))" for n
    by (rule same_frame_trans[OF _ same_frame_funpow[OF same_frame_ready]])
       (simp add: same_frame_def)
  show ?thesis
    unfolding emit_def Let_def using 0 1 2 3 4 5 by (cases ev) simp_all
qed

lemma same_frame_emit_after: "same_frame b c \<Longrightarrow> same_frame b (emit c ev)"
  by (rule same_frame_trans[OF _ same_frame_emit])

lemma same_frame_note_resolution: "same_frame b (note_resolution m r b)"
  by (simp add: same_frame_def note_resolution_def Let_def)

lemma same_frame_capability_loop: "same_frame b c \<Longrightarrow> same_frame b (capability_loop xs k n c)"
proof (induction xs k n c rule: capability_loop.induct)
  case (1 x y rest capability n c)
  have a: "same_frame b (c\<lparr>pins := pins c @ [new_pin capability]\<rparr>)"
    using "1.prems" by (simp add: same_frame_def)
  have r: "same_frame b (note_resolution x (js_shl 1 y - 1) c)"
    by (rule same_frame_trans[OF "1.prems" same_frame_note_resolution])
  show ?case
    using "1.IH"(1)[OF _ a] "1.IH"(2)[OF _ _ r] "1.IH"(3)[OF _ _ "1.prems"] by simp
qed simp_all

lemma same_frame_mapping_loop: "same_frame b c \<Longrightarrow> same_frame b (state_of (mapping_loop xs k c))"
proof (induction xs arbitrary: k c)
  case Nil
  then show ?case by (simp add: state_of_def)
next
  case (Cons x xs)
  show ?case
  proof (cases "k < length (pins c)")
    case True
    let ?c = "c\<lparr>pins := (pins c)[k := (pins c ! k)\<lparr>analogChannel := Some x\<rparr>],
                 analogPins := (if x \<noteq> 127 then analogPins c @ [k] else analogPins c)\<rparr>"
    have "same_frame b ?c"
      using Cons.prems by (simp add: same_frame_def)
    from Cons.IH[OF this] True show ?thesis by simp
  next
    case False
    then show ?thesis using Cons.prems by (simp add: state_of_def)
  qed
qed

lemma emit_frame [simp]:
  "invoked (emit b ev) = invoked b"
  "currentBuffer (emit b ev) = currentBuffer b"
  "SYSEX_RESPONSE (emit b ev) = SYSEX_RESPONSE b"
  using same_frame_emit[of b ev] by (simp_all add: same_frame_def)

lemma capability_loop_frame [simp]:
  "invoked (capability_loop xs k n b) = invoked b"
  "currentBuffer (capability_loop xs k n b) = currentBuffer b"
  "SYSEX_RESPONSE (capability_loop xs k n b) = SYSEX_RESPONSE b"
  using same_frame_capability_loop[OF same_frame_refl, of b xs k n]
  by (simp_all add: same_frame_def)

lemma mapping_loop_frame:
  assumes "mapping_loop xs k c = Returned c' \<or> mapping_loop xs k c = Threw e c'"
  shows "invoked c' = invoked c \<and> currentBuffer c' = currentBuffer c
         \<and> SYSEX_RESPONSE c' = SYSEX_RESPONSE c"
  using same_frame_mapping_loop[OF same_frame_refl, of c xs k] assms
  by (auto simp: same_frame_def state_of_def)

lemma same_frame_run_handler: "same_frame b (state_of (run_handler h b))"
proof (cases h)
  case H_ANALOG_MAPPING_RESPONSE
  then show ?thesis
    by (auto simp: sysex_ANALOG_MAPPING_RESPONSE_def state_of_def same_frame_def
        split: outcome.splits dest!: mapping_loop_frame[OF disjI1] mapping_loop_frame[OF disjI2])
qed (simp_all add: sysex_QUERY_FIRMWARE_def sysex_CAPABILITY_RESPONSE_def
      sysex_PIN_STATE_RESPONSE_def sysex_MICRODUINO_IR_def sysex_MICRODUINO_MOTION_def
      sysex_MICRODUINO_OLED_def sysex_MICRODUINO_IBB_def sysex_I2C_REPLY_def
      sysex_STRING_DATA_def sysex_PING_READ_def sysex_STEPPER_def sysex_user_def
      state_of_def Let_def same_frame_def set_pin_def split: option.splits)

lemma sysex_complete_no_handler:
  assumes "js_nth (currentBuffer c) 1 = Some k" "SYSEX_RESPONSE c k = None"
  shows "sysex_complete c = Returned (clear_buffer c)"
  using assms by (simp add: sysex_complete_def)

lemma sysex_complete_before_version:
  assumes "\<not> versionReceived c"
  shows "sysex_complete c = Returned (clear_buffer c)"
  using assms by (simp add: sysex_complete_def split: option.splits)

lemma sysex_complete_handler:
  assumes "js_nth (currentBuffer c) 1 = Some k" "SYSEX_RESPONSE c k = Some h" "versionReceived c"
  shows "sysex_complete c =
           (case run_handler h (c\<lparr>invoked := invoked c @ [(k, currentBuffer c)]\<rparr>) of
              Returned c1 \<Rightarrow> Returned (clear_buffer c1)
            | Threw e c1 \<Rightarrow> Threw e c1)"
  using assms by (simp add: sysex_complete_def)

lemma data_byte_end_sysex:
  assumes "currentBuffer b \<noteq> []" and "hd (currentBuffer b) = START_SYSEX"
  shows "data_byte b END_SYSEX = sysex_complete (b\<lparr>currentBuffer := currentBuffer b @ [END_SYSEX]\<rparr>)"
  using assms by (simp add: data_byte_def Let_def split: outcome.splits)

section \<open>The end of a SysEx frame\<close>

text \<open>
  The byte END_SYSEX after a buffer that starts with START_SYSEX, where no decoder
  throws. With no decoder under the frame's second byte, or before the version report,
  the frame is dropped and nothing else changes. Otherwise the decoder runs on the board
  with the whole frame in its buffer, and the buffer is emptied when it has returned.
\<close>

lemma sysex_frame_discarded:
  assumes "currentBuffer b \<noteq> []" and "hd (currentBuffer b) = START_SYSEX"
    and "SYSEX_RESPONSE b ((currentBuffer b @ [END_SYSEX]) ! 1) = None \<or> \<not> versionReceived b"
  shows "data_byte b END_SYSEX = Returned (b\<lparr>currentBuffer := []\<rparr>)"
proof -
  define frame where "frame = currentBuffer b @ [END_SYSEX]"
  define b1 where "b1 = b\<lparr>currentBuffer := frame\<rparr>"
  have nth: "js_nth (currentBuffer b1) 1 = Some (frame ! 1)"
    using assms(1) by (cases "currentBuffer b") (simp_all add: js_nth_def b1_def frame_def)
  have step: "data_byte b END_SYSEX = sysex_complete b1"
    unfolding b1_def frame_def by (rule data_byte_end_sysex[OF assms(1,2)])
  have clear: "clear_buffer b1 = b\<lparr>currentBuffer := []\<rparr>"
    by (simp add: clear_buffer_def b1_def)
  from assms(3) have "sysex_complete b1 = Returned (clear_buffer b1)"
  proof
    assume "SYSEX_RESPONSE b ((currentBuffer b @ [END_SYSEX]) ! 1) = None"
    with nth show ?thesis
      by (intro sysex_complete_no_handler) (simp_all add: b1_def frame_def)
  next
    assume "\<not> versionReceived b"
    then show ?thesis
      by (intro sysex_complete_before_version) (simp add: b1_def)
  qed
  with step clear show ?thesis by simp
qed

lemma sysex_frame_decoded:
  assumes "currentBuffer b \<noteq> []" and "hd (currentBuffer b) = START_SYSEX"
    and "SYSEX_RESPONSE b ((currentBuffer b @ [END_SYSEX]) ! 1) = Some h"
    and "versionReceived b"
    and "run_handler h
           (b\<lparr>currentBuffer := currentBuffer b @ [END_SYSEX],
              invoked := invoked b @ [((currentBuffer b @ [END_SYSEX]) ! 1,
                                       currentBuffer b @ [END_SYSEX])]\<rparr>) = Returned c"
  shows "data_byte b END_SYSEX = Returned (c\<lparr>currentBuffer := []\<rparr>)"
proof -
  define frame where "frame = currentBuffer b @ [END_SYSEX]"
  define b1 where "b1 = b\<lparr>currentBuffer := frame\<rparr>"
  have nth: "js_nth (currentBuffer b1) 1 = Some (frame ! 1)"
    using assms(1) by (cases "currentBuffer b") (simp_all add: js_nth_def b1_def frame_def)
  have step: "data_byte b END_SYSEX = sysex_complete b1"
    unfolding b1_def frame_def by (rule data_byte_end_sysex[OF assms(1,2)])
  have "sysex_complete b1 =
          (case run_handler h (b1\<lparr>invoked := invoked b1 @ [(frame ! 1, currentBuffer b1)]\<rparr>) of
             Returned c1 \<Rightarrow> Returned (clear_buffer c1) | Threw e c1 \<Rightarrow> Threw e c1)"
    using nth assms(3,4) by (intro sysex_complete_handler) (simp_all add: b1_def frame_def)
  with step assms(5) show ?thesis
    by (simp add: b1_def frame_def clear_buffer_def)
qed

text \<open>
  C2. At the end of a SysEx frame the decoder found under the frame's second byte is to
  be called if and only if there is one and \<open>versionReceived\<close> holds, and the buffer is to
  be cleared in every case. The code does not clear the buffer when the decoder throws:
  \<open>this.currentBuffer.length = 0\<close> comes after \<open>handler(this)\<close>, and nothing between
  them catches an exception. After the version report F9 02 05 and the bytes F0 6A 00
  on a new board, the byte F7 ends an analog-mapping reply for pin 0, which the board
  does not have. The decoder is called, as it should be; it has emptied \<open>analogPins\<close>
  when its assignment to \<open>board.pins[pin].analogChannel\<close> throws a TypeError, and the
  handler is left with the frame F0 6A 00 F7 in the buffer.
\<close>

theorem sysex_frame_kept_after_throw:
  "currentBuffer (state_of (on_data new_Board [0xF9, 2, 5, 0xF0, 0x6A, 0])) = [0xF0, 0x6A, 0]
   \<and> versionReceived (state_of (on_data new_Board [0xF9, 2, 5, 0xF0, 0x6A, 0]))
   \<and> SYSEX_RESPONSE (state_of (on_data new_Board [0xF9, 2, 5, 0xF0, 0x6A, 0])) 0x6A
       = Some H_ANALOG_MAPPING_RESPONSE
   \<and> pins (state_of (on_data new_Board [0xF9, 2, 5, 0xF0, 0x6A, 0])) = []
   \<and> data_byte (state_of (on_data new_Board [0xF9, 2, 5, 0xF0, 0x6A, 0])) END_SYSEX
       = Threw TypeError
           ((state_of (on_data new_Board [0xF9, 2, 5, 0xF0, 0x6A, 0]))
              \<lparr>currentBuffer := [0xF0, 0x6A, 0, 0xF7],
               invoked := [(0xF9, [0xF9, 2, 5]), (0x6A, [0xF0, 0x6A, 0, 0xF7])],
               analogPins := []\<rparr>)"
  by (simp add: parser_defs)

section \<open>Bits of the port masks\<close>

lemma to_int32_signed: "to_int32 x = signed_take_bit 31 x"
  by (simp add: to_int32_def signed_take_bit_eq_take_bit_shift take_bit_eq_mod)

lemma bit_to_int32: "bit (to_int32 x) j \<longleftrightarrow> bit x (min 31 j)"
  by (simp add: to_int32_signed bit_signed_take_bit_iff)

lemma js_and_7_range: "0 \<le> js_and p 7 \<and> js_and p 7 \<le> 7"
proof -
  have "to_int32 7 = 7" by (simp add: to_int32_def)
  then have "js_and p 7 = to_int32 p AND 7" by (simp add: js_and_def)
  moreover have "0 \<le> to_int32 p AND 7" by simp
  moreover have "to_int32 p AND 7 \<le> 7" by (rule AND_upper2) simp
  ultimately show ?thesis by simp
qed

lemma to_int32_pow2_small:
  assumes "0 \<le> k" "k \<le> 7"
  shows "to_int32 (2 ^ nat k) = 2 ^ nat k"
proof -
  have "(2::int) ^ nat k \<le> 2 ^ 7"
    using assms by (intro power_increasing) simp_all
  then have "(2::int) ^ nat k \<le> 128" by simp
  moreover have "0 \<le> (2::int) ^ nat k" by simp
  ultimately show ?thesis
    by (intro to_int32_id) linarith+
qed

lemma js_shl_1_small:
  assumes "0 \<le> k" "k \<le> 7"
  shows "js_shl 1 k = 2 ^ nat k"
proof -
  have one: "to_int32 1 = 1" by (simp add: to_int32_def)
  have km: "k mod 32 = k" using assms by simp
  show ?thesis
    by (simp add: js_shl_def one km push_bit_eq_mult to_int32_pow2_small[OF assms])
qed

lemma bit_js_or_bit:
  assumes "0 \<le> k" "k \<le> 7"
  shows "bit (js_or v (js_shl 1 k)) j \<longleftrightarrow> j = nat k \<or> bit (to_int32 v) j"
  by (auto simp add: js_or_def js_shl_1_small[OF assms] to_int32_pow2_small[OF assms]
      bit_simps)

lemma bit_js_and_not_bit:
  assumes "0 \<le> k" "k \<le> 7"
  shows "bit (js_and v (js_not (js_shl 1 k))) j \<longleftrightarrow> j \<noteq> nat k \<and> bit (to_int32 v) j"
proof -
  have "(2::int) ^ nat k \<le> 2 ^ 7"
    using assms by (intro power_increasing) simp_all
  then have "(2::int) ^ nat k \<le> 128" by simp
  moreover have "0 \<le> (2::int) ^ nat k" by simp
  ultimately have "- 2147483648 \<le> - ((2::int) ^ nat k) - 1 \<and> - ((2::int) ^ nat k) - 1 < 2147483648"
    by linarith
  then have "to_int32 (NOT (2 ^ nat k)) = NOT (2 ^ nat k)"
    by (intro to_int32_id) (simp_all add: not_int_def)
  then show ?thesis
    by (auto simp add: js_and_def js_not_def js_shl_1_small[OF assms]
        to_int32_pow2_small[OF assms] bit_simps)
qed

lemmas js_defs = js_and_def js_or_def js_xor_def js_not_def js_shl_def js_sar_def to_int32_def

lemmas command_defs = digitalWrite_def digitalRead_def pinMode_def remap_pin_def startsWith_sp_def
  pin_at_def set_pin_def writeToTransport_def write_port_bit_def

section \<open>The example states, evaluated\<close>

lemma new_pin_3:
  "new_pin 3 = \<lparr>supportedModes = [0, 1], mode = None, val = 0, report = 1,
      event = None, analogChannel = None, state = None\<rparr>"
  by (simp add: new_pin_def supportedModes_of_def MODES_def js_defs)

lemma board_one_pin_eval:
  "board_one_pin =
     new_Board\<lparr>versionReceived := True, version_major := Some 2, version_minor := Some 5,
       pins := [new_pin 3], emitted := [Ev_reportversion, Ev_capability_query],
       invoked := [(0xF9, [0xF9, 2, 5]), (0x6C, [0xF0, 0x6C, 0, 1, 1, 1, 0x7F, 0xF7])]\<rparr>"
  by (simp add: board_one_pin_def parser_defs sysex_CAPABILITY_RESPONSE_def
      note_resolution_def js_defs)

lemma board_sp_eval:
  "board_sp =
     new_Board\<lparr>versionReceived := True, version_major := Some 2, version_minor := Some 5,
       firmware_name := Some [0x73, 0x70], firmware_major := Some 2, firmware_minor := Some 5,
       capabilityWaiters := 1,
       emitted := [Ev_reportversion, Ev_queryfirmware],
       sent := [[0xF0, 0x6B, 0xF7]],
       invoked := [(0xF9, [0xF9, 2, 5]), (0x79, [0xF0, 0x79, 2, 5, 0x73, 0, 0x70, 0, 0xF7])]\<rparr>"
  by (simp add: board_sp_def parser_defs sysex_QUERY_FIRMWARE_def queryCapabilities_def
      writeToTransport_def js_defs Let_def)

section \<open>Mode changes\<close>

text \<open>
  C4, as amended. \<open>pinMode\<close> makes no check against the pin's supported modes: for every
  pin the board has and every mode, it sends \<open>[PIN_MODE, pin, mode]\<close> and, the write
  having resolved, sets the pin's mode to the mode asked for.
\<close>

theorem pinMode_unchecked:
  assumes "pin_at b pin = Some p" and "tw [PIN_MODE, pin, m]"
  shows "fst (pinMode tw b pin m) = Resolved ()
         \<and> sent (snd (pinMode tw b pin m)) = sent b @ [[PIN_MODE, pin, m]]
         \<and> pin_at (snd (pinMode tw b pin m)) pin = Some (p\<lparr>mode := Some m\<rparr>)"
  using assms
  by (auto simp: pinMode_def writeToTransport_def pin_at_def set_pin_def Let_def split: if_splits)

theorem pinMode_unchecked_witness:
  "pin_at board_one_pin 0 = Some (new_pin 3)
   \<and> fst (pinMode (\<lambda>d. True) board_one_pin 0 MODES_OUTPUT) = Resolved ()
   \<and> sent (snd (pinMode (\<lambda>d. True) board_one_pin 0 MODES_OUTPUT)) = [[PIN_MODE, 0, MODES_OUTPUT]]
   \<and> pin_at (snd (pinMode (\<lambda>d. True) board_one_pin 0 MODES_OUTPUT)) 0
       = Some ((new_pin 3)\<lparr>mode := Some MODES_OUTPUT\<rparr>)"
proof -
  have h: "pin_at board_one_pin 0 = Some (new_pin 3)"
    by (simp add: pin_at_def board_one_pin_eval)
  have s: "sent board_one_pin = []"
    by (simp add: board_one_pin_eval new_Board_def)
  from pinMode_unchecked[of board_one_pin 0 "new_pin 3" "\<lambda>d. True" MODES_OUTPUT, OF h]
  show ?thesis using h s by simp
qed

text \<open>
  C4, as stated, fails: the pin of \<open>board_one_pin\<close> supports INPUT and OUTPUT only, and
  \<open>pinMode\<close> with PWM resolves, sends the mode-set bytes and leaves the pin in PWM mode.
\<close>

theorem pinMode_unsupported_counterexample:
  "supportedModes (new_pin 3) = [MODES_INPUT, MODES_OUTPUT]
   \<and> pins board_one_pin = [new_pin 3]
   \<and> fst (pinMode (\<lambda>d. True) board_one_pin 0 MODES_PWM) = Resolved ()
   \<and> sent (snd (pinMode (\<lambda>d. True) board_one_pin 0 MODES_PWM)) = [[PIN_MODE, 0, MODES_PWM]]
   \<and> map mode (pins (snd (pinMode (\<lambda>d. True) board_one_pin 0 MODES_PWM))) = [Some MODES_PWM]"
  by (simp add: board_one_pin_eval new_Board_def command_defs new_pin_3)

section \<open>Digital writes\<close>

lemma write_port_bit_fields [simp]:
  "sent (write_port_bit b port m on) = sent b"
  "pins (write_port_bit b port m on) = pins b"
  "firmware_name (write_port_bit b port m on) = firmware_name b"
  "emitted (write_port_bit b port m on) = emitted b"
  by (simp_all add: write_port_bit_def)

lemma pin_at_write_port_bit [simp]: "pin_at (write_port_bit b port m on) i = pin_at b i"
  by (simp add: pin_at_def)

lemma pin_at_writeToTransport [simp]: "pin_at (writeToTransport b d) i = pin_at b i"
  by (simp add: pin_at_def writeToTransport_def)

lemma ports_write_port_bit:
  "ports (write_port_bit b port m on) =
     (ports b)(port \<mapsto> (if on then js_or (num (ports b port)) m
                            else js_and (num (ports b port)) (js_not m)))"
  by (simp add: write_port_bit_def)

text \<open>
  C7, as amended. For a pin the board has (after the renumbering at the head of
  \<open>digitalWrite\<close>) that is in OUTPUT mode, \<open>digitalWrite\<close> never sends the mode-set
  bytes. When the stored value equals the value written it sends nothing at all and
  resolves; when it differs it sends exactly the digital value-write message for the
  pin's port.
\<close>

theorem digitalWrite_output_pin:
  assumes "pin_at b (remap_pin b pin0) = Some p" and "mode p = Some MODES_OUTPUT"
  shows "(val p = value \<longrightarrow>
            fst (digitalWrite tw b pin0 value) = Resolved ()
            \<and> sent (snd (digitalWrite tw b pin0 value)) = sent b)
         \<and> (val p \<noteq> value \<longrightarrow>
            (\<exists>w. ports (snd (digitalWrite tw b pin0 value)) (js_sar (remap_pin b pin0) 3) = Some w
               \<and> sent (snd (digitalWrite tw b pin0 value))
                   = sent b @ [[js_or DIGITAL_MESSAGE (js_sar (remap_pin b pin0) 3),
                                js_and w 0x7F, js_and (js_sar w 7) 0x7F]]))"
proof -
  define pin where "pin = remap_pin b pin0"
  define port where "port = js_sar pin 3"
  define b1 where "b1 = write_port_bit b port (js_shl 1 (js_and pin 0x07)) (value \<noteq> 0)"
  obtain w where w: "ports b1 port = Some w"
    by (simp add: b1_def ports_write_port_bit)
  define msg where "msg = [js_or DIGITAL_MESSAGE port, js_and w 0x7F, js_and (js_sar w 7) 0x7F]"
  have p1: "pin_at b1 pin = Some p" "sent b1 = sent b"
    using assms(1) by (simp_all add: b1_def pin_def)
  have r: "int (length (pins b1)) > pin"
    using p1(1) by (simp add: pin_at_def split: if_splits)
  have same: "digitalWrite tw b pin0 value = (Resolved (), b1)" if "val p = value"
    unfolding digitalWrite_def pin_def[symmetric] Let_def port_def[symmetric] b1_def[symmetric]
    using that assms(2) p1 r by simp
  have p2: "pin_at (writeToTransport b1 msg) pin = Some p"
    using p1(1) by simp
  have diff: "digitalWrite tw b pin0 value =
      (if \<not> tw msg then (Rejected TransportWriteFailed, writeToTransport b1 msg)
       else (Resolved (), set_pin (writeToTransport b1 msg) pin (p\<lparr>val := value\<rparr>)))"
    if "val p \<noteq> value"
    unfolding digitalWrite_def pin_def[symmetric] Let_def port_def[symmetric] b1_def[symmetric]
    using that assms(2) p1 r p2 by (simp add: w num_def msg_def)
  have diff': "ports (snd (digitalWrite tw b pin0 value)) port = Some w
     \<and> sent (snd (digitalWrite tw b pin0 value)) = sent b @ [msg]" if "val p \<noteq> value"
    using p1 w by (simp add: diff[OF that] writeToTransport_def set_pin_def)
  show ?thesis
    using same diff' p1
    unfolding pin_def[symmetric] port_def[symmetric] msg_def
    by auto
qed

theorem digitalWrite_output_pin_witness:
  "pin_at (snd (digitalWrite (\<lambda>d. True) board_one_pin 0 1)) 0
      = Some ((new_pin 3)\<lparr>mode := Some MODES_OUTPUT, val := 1\<rparr>)
   \<and> fst (digitalWrite (\<lambda>d. True) (snd (digitalWrite (\<lambda>d. True) board_one_pin 0 1)) 0 1) = Resolved ()
   \<and> sent (snd (digitalWrite (\<lambda>d. True) (snd (digitalWrite (\<lambda>d. True) board_one_pin 0 1)) 0 1))
       = [[PIN_MODE, 0, MODES_OUTPUT], [0x90, 1, 0]]
   \<and> sent (snd (digitalWrite (\<lambda>d. True) (snd (digitalWrite (\<lambda>d. True) board_one_pin 0 1)) 0 0))
       = [[PIN_MODE, 0, MODES_OUTPUT], [0x90, 1, 0], [0x90, 0, 0]]"
proof -
  define b where "b = snd (digitalWrite (\<lambda>d. True) board_one_pin 0 1)"
  define p where "p = (new_pin 3)\<lparr>mode := Some MODES_OUTPUT, val := 1\<rparr>"
  have b: "remap_pin b 0 = 0" "pin_at b 0 = Some p" "sent b = [[PIN_MODE, 0, MODES_OUTPUT], [0x90, 1, 0]]"
    "ports b 0 = Some 1"
    unfolding b_def p_def
    by (simp_all add: board_one_pin_eval new_Board_def command_defs new_pin_3 Let_def ports0_def
        js_defs num_def)
  have h: "pin_at b (remap_pin b 0) = Some p" "mode p = Some MODES_OUTPUT"
    by (simp_all add: b p_def)
  have w: "ports (snd (digitalWrite (\<lambda>d. True) b 0 0)) 0 = Some 0"
    using b by (simp add: digitalWrite_def Let_def js_defs num_def p_def new_pin_3
        pinMode_def writeToTransport_def set_pin_def pin_at_def write_port_bit_def
        split: if_splits)
  from digitalWrite_output_pin[OF h, of 1 "\<lambda>d. True"] digitalWrite_output_pin[OF h, of 0 "\<lambda>d. True"]
  show ?thesis
    unfolding b_def[symmetric] p_def[symmetric]
    using b w by (auto simp: p_def js_defs)
qed

text \<open>
  C7, as stated, fails in its clause that the value-write message is sent: a second write
  of the same value to a pin in OUTPUT mode sends nothing.
\<close>

theorem digitalWrite_same_value_counterexample:
  "map mode (pins (snd (digitalWrite (\<lambda>d. True) board_one_pin 0 1))) = [Some MODES_OUTPUT]
   \<and> map val (pins (snd (digitalWrite (\<lambda>d. True) board_one_pin 0 1))) = [1]
   \<and> sent (snd (digitalWrite (\<lambda>d. True) (snd (digitalWrite (\<lambda>d. True) board_one_pin 0 1)) 0 1))
       = sent (snd (digitalWrite (\<lambda>d. True) board_one_pin 0 1))"
  by (simp add: board_one_pin_eval new_Board_def command_defs new_pin_3 Let_def ports0_def
      js_defs num_def)

section \<open>The firmware name\<close>

lemma pin_at_firmware_name [simp]: "pin_at (b\<lparr>firmware_name := n\<rparr>) i = pin_at b i"
  by (simp add: pin_at_def)

lemma remap_pin_firmware_name:
  "startsWith_sp (b\<lparr>firmware_name := n\<rparr>) = startsWith_sp b \<Longrightarrow>
   remap_pin (b\<lparr>firmware_name := n\<rparr>) pin = remap_pin b pin"
  by (simp add: remap_pin_def)

lemma pinMode_firmware_name:
  "pinMode tw (b\<lparr>firmware_name := n\<rparr>) pin m =
     (fst (pinMode tw b pin m), (snd (pinMode tw b pin m))\<lparr>firmware_name := n\<rparr>)"
  by (simp add: pinMode_def Let_def writeToTransport_def set_pin_def pin_at_def)

lemma digitalWrite_firmware_name:
  assumes "startsWith_sp (b\<lparr>firmware_name := n\<rparr>) = startsWith_sp b"
  shows "digitalWrite tw (b\<lparr>firmware_name := n\<rparr>) pin v =
           (fst (digitalWrite tw b pin v), (snd (digitalWrite tw b pin v))\<lparr>firmware_name := n\<rparr>)"
  unfolding digitalWrite_def remap_pin_firmware_name[OF assms]
  by (simp add: Let_def writeToTransport_def set_pin_def pinMode_def pin_at_def
      write_port_bit_def split: promise.splits)

lemma startsWith_sp_sent [simp]:
  "startsWith_sp (snd (pinMode tw b pin m)) = startsWith_sp b"
  by (simp add: pinMode_def Let_def writeToTransport_def set_pin_def startsWith_sp_def split: option.splits)

lemma digitalRead_firmware_name:
  assumes "startsWith_sp (b\<lparr>firmware_name := n\<rparr>) = startsWith_sp b"
  shows "digitalRead tw (b\<lparr>firmware_name := n\<rparr>) pin =
           (fst (digitalRead tw b pin), (snd (digitalRead tw b pin))\<lparr>firmware_name := n\<rparr>)"
proof -
  have s: "startsWith_sp ((snd (pinMode tw b p m))\<lparr>firmware_name := n\<rparr>) = startsWith_sp b" for p m
    using assms
    by (simp add: pinMode_def Let_def writeToTransport_def set_pin_def startsWith_sp_def
        split: option.splits)
  show ?thesis
    unfolding digitalRead_def remap_pin_firmware_name[OF assms]
    by (simp add: Let_def pinMode_firmware_name s writeToTransport_def pin_at_def)
qed

text \<open>
  C9, as amended. \<open>digitalWrite\<close> and \<open>digitalRead\<close> depend on the firmware name only
  through whether it starts with \<open>sp\<close>: in two runs that differ only in the firmware
  name, and whose names agree on that, the results, the bytes sent and the state left
  are the same.
\<close>

theorem digital_io_firmware_name:
  assumes "startsWith_sp (b\<lparr>firmware_name := n\<rparr>) = startsWith_sp b"
  shows "digitalWrite tw (b\<lparr>firmware_name := n\<rparr>) pin v =
           (fst (digitalWrite tw b pin v), (snd (digitalWrite tw b pin v))\<lparr>firmware_name := n\<rparr>)
         \<and> digitalRead tw (b\<lparr>firmware_name := n\<rparr>) pin =
           (fst (digitalRead tw b pin), (snd (digitalRead tw b pin))\<lparr>firmware_name := n\<rparr>)"
  using digitalWrite_firmware_name[OF assms] digitalRead_firmware_name[OF assms] by simp

theorem digital_io_firmware_name_witness:
  "startsWith_sp (board_32_pins\<lparr>firmware_name := Some [0x53, 0x74, 0x64]\<rparr>) = startsWith_sp board_32_pins
   \<and> sent (snd (digitalWrite (\<lambda>d. True) (board_32_pins\<lparr>firmware_name := Some [0x53, 0x74, 0x64]\<rparr>) 14 1))
       = sent (snd (digitalWrite (\<lambda>d. True) board_32_pins 14 1))
   \<and> sent (snd (digitalRead (\<lambda>d. True) (board_32_pins\<lparr>firmware_name := Some [0x53, 0x74, 0x64]\<rparr>) 14))
       = sent (snd (digitalRead (\<lambda>d. True) board_32_pins 14))"
proof -
  have h: "startsWith_sp (board_32_pins\<lparr>firmware_name := Some [0x53, 0x74, 0x64]\<rparr>)
           = startsWith_sp board_32_pins"
    by (simp add: startsWith_sp_def board_32_pins_def new_Board_def)
  from digital_io_firmware_name[OF h, of "\<lambda>d. True" 14 1] h show ?thesis by simp
qed

text \<open>
  C9, as stated, fails: under a firmware whose name starts with \<open>sp\<close> the pins 14 to 21
  are renumbered to 24 to 31, and \<open>digitalRead\<close> asks for the reports of four ports
  instead of three.
\<close>

theorem firmware_name_counterexample:
  "sent (snd (digitalWrite (\<lambda>d. True) board_32_pins 14 1)) = [[0xF4, 14, 1], [0x91, 0x40, 0]]
   \<and> sent (snd (digitalWrite (\<lambda>d. True) (board_32_pins\<lparr>firmware_name := Some [0x73, 0x70]\<rparr>) 14 1))
       = [[0xF4, 24, 1], [0x93, 1, 0]]
   \<and> sent (snd (digitalRead (\<lambda>d. True) board_32_pins 14))
       = [[0xF4, 14, 0], [0xD0, 1, 0xD1, 1, 0xD2, 1]]
   \<and> sent (snd (digitalRead (\<lambda>d. True) (board_32_pins\<lparr>firmware_name := Some [0x73, 0x70]\<rparr>) 14))
       = [[0xF4, 24, 0], [0xD0, 1, 0xD1, 1, 0xD2, 1, 0xD3, 1]]"
  by (simp add: board_32_pins_def new_Board_def command_defs new_pin_3 Let_def ports0_def
      js_defs num_def)

section \<open>A digital write to a pin the board does not have\<close>

text \<open>
  C10, as amended. For a pin index at or past the end of the pins array, \<open>digitalWrite\<close>
  rejects with \<open>Invalid digital write\<close> and sends nothing, after it has set or cleared,
  according to the value, bit \<open>p & 7\<close> of \<open>ports[p >> 3]\<close>, where \<open>p\<close> is the pin after
  the renumbering (\<open>pin + 10\<close> for pins 14 to 21 under a firmware whose name starts with
  \<open>sp\<close>, \<open>pin\<close> otherwise); the other bits of that port and the pins are as before.
\<close>

theorem digitalWrite_out_of_range:
  assumes "int (length (pins b)) \<le> pin0"
  shows "fst (digitalWrite tw b pin0 value) = Rejected InvalidDigitalWrite
         \<and> sent (snd (digitalWrite tw b pin0 value)) = sent b
         \<and> pins (snd (digitalWrite tw b pin0 value)) = pins b
         \<and> (\<exists>w. ports (snd (digitalWrite tw b pin0 value))
                   = (ports b)(js_sar (remap_pin b pin0) 3 \<mapsto> w)
                \<and> (\<forall>j. bit w j \<longleftrightarrow>
                      (if j = nat (js_and (remap_pin b pin0) 0x07) then value \<noteq> 0
                       else bit (to_int32 (num (ports b (js_sar (remap_pin b pin0) 3)))) j)))"
proof -
  define pin where "pin = remap_pin b pin0"
  define k where "k = js_and pin 0x07"
  define v where "v = num (ports b (js_sar pin 3))"
  define w where "w = (if value \<noteq> 0 then js_or v (js_shl 1 k) else js_and v (js_not (js_shl 1 k)))"
  have r: "int (length (pins b)) \<le> pin"
    using assms by (simp add: pin_def remap_pin_def)
  have k: "0 \<le> k" "k \<le> 7"
    using js_and_7_range[of pin] by (simp_all add: k_def)
  have res: "digitalWrite tw b pin0 value =
      (Rejected InvalidDigitalWrite, write_port_bit b (js_sar pin 3) (js_shl 1 k) (value \<noteq> 0))"
    using r unfolding digitalWrite_def pin_def[symmetric] Let_def k_def
    by simp
  have ports: "ports (write_port_bit b (js_sar pin 3) (js_shl 1 k) (value \<noteq> 0))
               = (ports b)(js_sar pin 3 \<mapsto> w)"
    by (simp add: ports_write_port_bit w_def v_def)
  have bits: "bit w j \<longleftrightarrow> (if j = nat k then value \<noteq> 0 else bit (to_int32 v) j)" for j
    by (simp add: w_def bit_js_or_bit[OF k] bit_js_and_not_bit[OF k])
  show ?thesis
    unfolding res pin_def[symmetric] k_def[symmetric] v_def[symmetric]
    using bits ports by auto
qed

theorem digitalWrite_out_of_range_witness:
  "int (length (pins board_one_pin)) \<le> 9
   \<and> fst (digitalWrite (\<lambda>d. True) board_one_pin 9 1) = Rejected InvalidDigitalWrite
   \<and> sent (snd (digitalWrite (\<lambda>d. True) board_one_pin 9 1)) = []
   \<and> ports (snd (digitalWrite (\<lambda>d. True) board_one_pin 9 1)) 1 = Some 2"
proof -
  have h: "int (length (pins board_one_pin)) \<le> 9"
    by (simp add: board_one_pin_eval)
  have p: "ports (snd (digitalWrite (\<lambda>d. True) board_one_pin 9 1)) 1 = Some 2"
    by (simp add: board_one_pin_eval new_Board_def command_defs Let_def ports0_def js_defs num_def)
  from digitalWrite_out_of_range[OF h, of "\<lambda>d. True" 1] h p show ?thesis
    by (simp add: board_one_pin_eval new_Board_def)
qed

text \<open>
  C10, as stated, fails under a firmware whose name starts with \<open>sp\<close>: for pin 14 the bit
  written is bit 0 of port 3 (pin 24), and bit 6 of port 1 stays clear.
\<close>

theorem digitalWrite_renumbered_counterexample:
  "firmware_name board_sp = Some [0x73, 0x70] \<and> pins board_sp = []
   \<and> fst (digitalWrite (\<lambda>d. True) board_sp 14 1) = Rejected InvalidDigitalWrite
   \<and> ports (snd (digitalWrite (\<lambda>d. True) board_sp 14 1)) (js_sar 14 3) = Some 0
   \<and> ports (snd (digitalWrite (\<lambda>d. True) board_sp 14 1)) 3 = Some 1"
  by (simp add: board_sp_eval new_Board_def command_defs Let_def ports0_def js_defs num_def)

section \<open>A whole SysEx frame\<close>

lemma data_byte_sysex_start:
  assumes "currentBuffer b = []" "versionReceived b"
  shows "data_byte b START_SYSEX = Returned (b\<lparr>currentBuffer := [START_SYSEX]\<rparr>)"
  using assms by (simp add: data_byte_def Let_def)

lemma data_byte_sysex_body:
  assumes "currentBuffer b \<noteq> []" "hd (currentBuffer b) = START_SYSEX" "x \<le> 127"
  shows "data_byte b x = Returned (b\<lparr>currentBuffer := currentBuffer b @ [x]\<rparr>)"
  using assms by (simp add: data_byte_def Let_def)

lemma on_data_sysex_body:
  assumes "currentBuffer b \<noteq> []" "hd (currentBuffer b) = START_SYSEX" "\<forall>x\<in>set xs. x \<le> 127"
  shows "on_data b xs = Returned (b\<lparr>currentBuffer := currentBuffer b @ xs\<rparr>)"
  using assms
proof (induction xs arbitrary: b)
  case Nil
  then show ?case by simp
next
  case (Cons x xs)
  let ?b1 = "b\<lparr>currentBuffer := currentBuffer b @ [x]\<rparr>"
  have step: "data_byte b x = Returned ?b1"
    using Cons.prems by (intro data_byte_sysex_body) simp_all
  have "on_data ?b1 xs = Returned (?b1\<lparr>currentBuffer := currentBuffer ?b1 @ xs\<rparr>)"
    using Cons.prems by (intro Cons.IH) simp_all
  then show ?case by (simp add: step)
qed

lemma on_data_sysex_frame:
  assumes "currentBuffer b = []" "versionReceived b" "\<forall>x\<in>set body. x \<le> 127"
  shows "on_data b (START_SYSEX # body @ [END_SYSEX]) =
           sysex_complete (b\<lparr>currentBuffer := START_SYSEX # body @ [END_SYSEX]\<rparr>)"
proof -
  let ?b1 = "b\<lparr>currentBuffer := [START_SYSEX]\<rparr>"
  let ?b2 = "b\<lparr>currentBuffer := START_SYSEX # body\<rparr>"
  have 1: "data_byte b START_SYSEX = Returned ?b1"
    by (rule data_byte_sysex_start[OF assms(1,2)])
  have 2: "on_data ?b1 body = Returned ?b2"
    using on_data_sysex_body[of ?b1 body] assms(3) by simp
  have 3: "data_byte ?b2 END_SYSEX = sysex_complete (?b2\<lparr>currentBuffer := currentBuffer ?b2 @ [END_SYSEX]\<rparr>)"
    by (rule data_byte_end_sysex) simp_all
  show ?thesis
    using 1 2 3 by (simp add: on_data_append split: outcome.splits)
qed

section \<open>Registering a SysEx handler\<close>

text \<open>
  C8. \<open>sysexResponse\<close> with a command byte that has an entry in the table throws at once
  (no new state: the table is as before); with a byte that has none it installs the
  wrapper of the callback, and a frame \<open>[START_SYSEX, byte, payload..., END_SYSEX]\<close> then
  calls the callback with the payload alone.
\<close>

theorem sysexResponse_registration:
  "(SYSEX_RESPONSE b c \<noteq> None \<longrightarrow> sysexResponse b c h = Inl (SysexByteTaken c))
   \<and> (SYSEX_RESPONSE b c = None \<longrightarrow>
        sysexResponse b c h = Inr (b\<lparr>SYSEX_RESPONSE := (SYSEX_RESPONSE b)(c \<mapsto> H_User h)\<rparr>)
        \<and> (currentBuffer b = [] \<and> versionReceived b \<and> c \<le> 127 \<and> (\<forall>x\<in>set body. x \<le> 127) \<longrightarrow>
             on_data (b\<lparr>SYSEX_RESPONSE := (SYSEX_RESPONSE b)(c \<mapsto> H_User h)\<rparr>)
               (START_SYSEX # c # body @ [END_SYSEX])
             = Returned (b\<lparr>SYSEX_RESPONSE := (SYSEX_RESPONSE b)(c \<mapsto> H_User h),
                           invoked := invoked b @ [(c, START_SYSEX # c # body @ [END_SYSEX])],
                           userCalls := userCalls b @ [(h, body)]\<rparr>)))"
proof -
  have frame: "on_data (b\<lparr>SYSEX_RESPONSE := (SYSEX_RESPONSE b)(c \<mapsto> H_User h)\<rparr>)
               (START_SYSEX # c # body @ [END_SYSEX])
             = Returned (b\<lparr>SYSEX_RESPONSE := (SYSEX_RESPONSE b)(c \<mapsto> H_User h),
                           invoked := invoked b @ [(c, START_SYSEX # c # body @ [END_SYSEX])],
                           userCalls := userCalls b @ [(h, body)]\<rparr>)"
    if "currentBuffer b = []" "versionReceived b" "c \<le> 127" "\<forall>x\<in>set body. x \<le> 127"
  proof -
    let ?b' = "b\<lparr>SYSEX_RESPONSE := (SYSEX_RESPONSE b)(c \<mapsto> H_User h)\<rparr>"
    have "on_data ?b' (START_SYSEX # (c # body) @ [END_SYSEX]) =
           sysex_complete (?b'\<lparr>currentBuffer := START_SYSEX # (c # body) @ [END_SYSEX]\<rparr>)"
      using that by (intro on_data_sysex_frame) simp_all
    then show ?thesis
      using that
      by (simp add: sysex_complete_def js_nth_def sysex_user_def payload_def clear_buffer_def)
  qed
  show ?thesis
    using frame by (auto simp: sysexResponse_def)
qed

theorem sysexResponse_registration_witness:
  "SYSEX_RESPONSE board_one_pin 0x79 \<noteq> None
   \<and> sysexResponse board_one_pin 0x79 7 = Inl (SysexByteTaken 0x79)
   \<and> SYSEX_RESPONSE board_one_pin 0x42 = None
   \<and> currentBuffer board_one_pin = [] \<and> versionReceived board_one_pin
   \<and> userCalls (state_of (on_data
        (board_one_pin\<lparr>SYSEX_RESPONSE := (SYSEX_RESPONSE board_one_pin)(0x42 \<mapsto> H_User 7)\<rparr>)
        [0xF0, 0x42, 1, 2, 3, 0xF7])) = [(7, [1, 2, 3])]"
proof -
  have h: "SYSEX_RESPONSE board_one_pin 0x79 \<noteq> None" "SYSEX_RESPONSE board_one_pin 0x42 = None"
    "currentBuffer board_one_pin = []" "versionReceived board_one_pin"
    "userCalls board_one_pin = []"
    by (simp_all add: board_one_pin_eval new_Board_def builtin_SYSEX_RESPONSE_def)
  from sysexResponse_registration[of board_one_pin "0x79" 7 "[]"]
       sysexResponse_registration[of board_one_pin "0x42" 7 "[1, 2, 3]"]
  show ?thesis using h by (simp add: state_of_def)
qed

section \<open>The digital message\<close>

lemma to_int32_idem [simp]: "to_int32 (to_int32 x) = to_int32 x"
  by (simp add: to_int32_signed)

lemma to_int32_or: "to_int32 (to_int32 a OR to_int32 b) = to_int32 a OR to_int32 b"
  by (rule bit_eqI) (simp add: bit_to_int32 bit_or_iff)

lemma to_int32_js_or [simp]: "to_int32 (js_or a b) = js_or a b"
  by (simp add: js_or_def to_int32_or)

lemma js_and_15_range: "0 \<le> js_and c 0x0F \<and> js_and c 0x0F \<le> 15"
proof -
  have "to_int32 15 = 15" by (simp add: to_int32_def)
  then have "js_and c 15 = to_int32 c AND 15" by (simp add: js_and_def)
  moreover have "0 \<le> to_int32 c AND 15" by simp
  moreover have "to_int32 c AND 15 \<le> 15" by (rule AND_upper2) simp
  ultimately show ?thesis by simp
qed

lemma current_value_bit:
  assumes "i < 8"
  shows "js_and (js_sar pv (js_and (int i) 0x07)) 0x01 = (if bit (to_int32 pv) i then 1 else 0)"
proof -
  have c: "to_int32 7 = 7" "to_int32 1 = 1" by (simp_all add: to_int32_def)
  have i: "to_int32 (int i) = int i" using assms by (intro to_int32_id) simp_all
  have "int i AND 7 = take_bit 3 (int i)"
    by (simp add: take_bit_eq_mask mask_eq_exp_minus_1)
  also have "\<dots> = int i" using assms by (simp add: take_bit_int_eq_self)
  finally have k: "js_and (int i) 7 = int i" by (simp add: js_and_def c i)
  have m: "int i mod 32 = int i" using assms by simp
  have sar: "js_sar pv (int i) = drop_bit i (to_int32 pv)"
    by (simp add: js_sar_def m)
  have "to_int32 (drop_bit i (to_int32 pv)) = drop_bit i (to_int32 pv)"
    by (rule bit_eqI) (simp add: bit_to_int32 bit_drop_bit_eq min_def)
  then have d: "to_int32 (drop_bit i (to_int32 pv)) AND 1 = (if bit (to_int32 pv) i then 1 else 0)"
    by (simp add: and_one_eq mod2_eq_if bit_iff_odd_drop_bit)
  have "js_and (js_sar pv (js_and (int i) 0x07)) 0x01 = js_and (drop_bit i (to_int32 pv)) 1"
    by (simp only: k sar)
  also have "\<dots> = to_int32 (drop_bit i (to_int32 pv)) AND 1"
    by (simp add: js_and_def c)
  finally show ?thesis
    by (simp only: d)
qed


lemma emit_digital_read [simp]:
  "emit b (Ev_digital_read_pin k v) = b\<lparr>emitted := emitted b @ [Ev_digital_read_pin k v]\<rparr>"
  "emit b (Ev_digital_read k v) = b\<lparr>emitted := emitted b @ [Ev_digital_read k v]\<rparr>"
  by (simp_all add: emit_def)

lemma digital_pin_inactive:
  assumes "pin_at c (8 * port + int i) = None \<or> (\<exists>p. pin_at c (8 * port + int i) = Some p \<and> \<not> input_mode p)"
  shows "digital_pin port pv i c = c"
  using assms by (auto simp: digital_pin_def input_mode_def Let_def)

lemma digital_pin_active:
  assumes "i < 8" "pin_at c (8 * port + int i) = Some p" "input_mode p"
  shows "digital_pin port pv i c =
           (write_port_bit (set_pin c (8 * port + int i) (spec_digital_pin (to_int32 pv) i p))
              port (js_shl 1 (int i)) (bit (to_int32 pv) i))
           \<lparr>emitted := emitted c @ digital_events (8 * port + int i)
                                     (if bit (to_int32 pv) i then 1 else 0)\<rparr>"
proof -
  have m: "mode p = Some 0 \<or> mode p = Some 11"
    using assms(3) by (simp add: input_mode_def)
  have sp: "(let p1 = (if val p = 0 \<and> (if bit (to_int32 pv) i then 1 else 0) = (1::int)
                       then p\<lparr>event := Some 1\<rparr> else p);
                 p2 = (if val p1 = 1 \<and> (if bit (to_int32 pv) i then 1 else 0) = (0::int)
                       then p1\<lparr>event := Some 0\<rparr> else p1)
             in p2\<lparr>val := (if bit (to_int32 pv) i then 1 else 0)\<rparr>)
            = spec_digital_pin (to_int32 pv) i p"
    by (simp add: spec_digital_pin_def Let_def)
  show ?thesis
    unfolding digital_pin_def current_value_bit[OF assms(1)]
    using assms(2) m sp
    by (auto simp add: Let_def digital_events_def write_port_bit_def set_pin_def
        spec_digital_pin_def)
qed


lemma to_int32_and: "to_int32 (to_int32 a AND to_int32 b) = to_int32 a AND to_int32 b"
  by (rule bit_eqI) (simp add: bit_to_int32 bit_and_iff)

lemma to_int32_js_and [simp]: "to_int32 (js_and a b) = js_and a b"
  by (simp add: js_and_def to_int32_and)

lemma digital_pin_step:
  assumes "i < 8"
  shows "digital_pin port pv i c =
     (case pin_at c (8 * port + int i) of
        None \<Rightarrow> c
      | Some p \<Rightarrow>
          if input_mode p then
            (write_port_bit (set_pin c (8 * port + int i) (spec_digital_pin (to_int32 pv) i p))
               port (js_shl 1 (int i)) (bit (to_int32 pv) i))
            \<lparr>emitted := emitted c @ digital_events (8 * port + int i)
                                      (if bit (to_int32 pv) i then 1 else 0)\<rparr>
          else c)"
proof (cases "pin_at c (8 * port + int i)")
  case None
  then show ?thesis by (simp add: digital_pin_inactive)
next
  case (Some p)
  then show ?thesis
    using digital_pin_active[OF assms Some, of pv] digital_pin_inactive[of c port i pv]
    by (cases "input_mode p") simp_all
qed


lemma pin_at_int: "pin_at c (int m) = (if m < length (pins c) then Some (pins c ! m) else None)"
  by (simp add: pin_at_def)

lemma pin_at_8:
  "pin_at c (8 * int P + int n) =
     (if 8 * P + n < length (pins c) then Some (pins c ! (8 * P + n)) else None)"
  using pin_at_int[of c "8 * P + n"] by simp

lemma set_pin_int: "set_pin c (int m) p = c\<lparr>pins := (pins c)[m := p]\<rparr>"
  by (simp add: set_pin_def)

text \<open>Round \<open>i\<close> of the loop for port \<open>P\<close>, on pin \<open>8 * P + i\<close>.\<close>

lemma digital_pin_round:
  assumes "i < 8"
  shows "digital_pin (int P) pv i c =
     (if 8 * P + i < length (pins c) \<and> input_mode (pins c ! (8 * P + i)) then
        (write_port_bit
           (c\<lparr>pins := (pins c)[8 * P + i := spec_digital_pin (to_int32 pv) i (pins c ! (8 * P + i))]\<rparr>)
           (int P) (js_shl 1 (int i)) (bit (to_int32 pv) i))
        \<lparr>emitted := emitted c @ digital_events (int (8 * P + i))
                                  (if bit (to_int32 pv) i then 1 else 0)\<rparr>
      else c)"
proof -
  have k: "8 * int P + int i = int (8 * P + i)" by simp
  show ?thesis
    unfolding digital_pin_step[OF assms] k pin_at_int set_pin_int by simp
qed

lemma digital_pin_round_pins:
  assumes "i < 8"
  shows "pins (digital_pin (int P) pv i c) =
     (if 8 * P + i < length (pins c) \<and> input_mode (pins c ! (8 * P + i))
      then (pins c)[8 * P + i := spec_digital_pin (to_int32 pv) i (pins c ! (8 * P + i))]
      else pins c)"
  by (simp add: digital_pin_round[OF assms])

lemma digital_pin_round_emitted:
  assumes "i < 8"
  shows "emitted (digital_pin (int P) pv i c) =
     emitted c @ (if 8 * P + i < length (pins c) \<and> input_mode (pins c ! (8 * P + i))
                  then digital_events (int (8 * P + i)) (if bit (to_int32 pv) i then 1 else 0)
                  else [])"
  by (simp add: digital_pin_round[OF assms])

lemma digital_pin_round_ports:
  assumes "i < 8"
  shows "ports (digital_pin (int P) pv i c) =
     (if 8 * P + i < length (pins c) \<and> input_mode (pins c ! (8 * P + i))
      then (ports c)(int P \<mapsto> (if bit (to_int32 pv) i
                                   then js_or (num (ports c (int P))) (js_shl 1 (int i))
                                   else js_and (num (ports c (int P))) (js_not (js_shl 1 (int i)))))
      else ports c)"
  by (simp add: digital_pin_round[OF assms] ports_write_port_bit)

text \<open>The pins after the first \<open>n\<close> rounds of the loop.\<close>

lemma digital_rounds_pins:
  assumes "n \<le> 8"
  shows "pins (fold (digital_pin (int P) pv) [0..<n] b) =
     map (\<lambda>j. if 8 * P \<le> j \<and> j < 8 * P + n \<and> input_mode (pins b ! j)
               then spec_digital_pin (to_int32 pv) (j - 8 * P) (pins b ! j)
               else pins b ! j) [0..<length (pins b)]"
  using assms
proof (induction n)
  case 0
  show ?case by (rule nth_equalityI) auto
next
  case (Suc n)
  define c where "c = fold (digital_pin (int P) pv) [0..<n] b"
  have n: "n < 8" "n \<le> 8" using Suc.prems by simp_all
  have ih: "pins c = map (\<lambda>j. if 8 * P \<le> j \<and> j < 8 * P + n \<and> input_mode (pins b ! j)
               then spec_digital_pin (to_int32 pv) (j - 8 * P) (pins b ! j)
               else pins b ! j) [0..<length (pins b)]"
    unfolding c_def by (rule Suc.IH[OF n(2)])
  have len: "length (pins c) = length (pins b)"
    by (simp add: ih)
  have at_k: "pins c ! (8 * P + n) = pins b ! (8 * P + n)" if "8 * P + n < length (pins b)"
    using that by (simp add: ih)
  have "pins (digital_pin (int P) pv n c) =
     map (\<lambda>j. if 8 * P \<le> j \<and> j < 8 * P + Suc n \<and> input_mode (pins b ! j)
               then spec_digital_pin (to_int32 pv) (j - 8 * P) (pins b ! j)
               else pins b ! j) [0..<length (pins b)]"
  proof (rule nth_equalityI)
    show "length (pins (digital_pin (int P) pv n c)) = length (map (\<lambda>j. if 8 * P \<le> j \<and> j < 8 * P + Suc n \<and> input_mode (pins b ! j)
               then spec_digital_pin (to_int32 pv) (j - 8 * P) (pins b ! j)
               else pins b ! j) [0..<length (pins b)])"
      by (simp add: digital_pin_round_pins[OF n(1)] len)
  next
    fix j assume "j < length (pins (digital_pin (int P) pv n c))"
    then have j: "j < length (pins b)"
      by (simp add: digital_pin_round_pins[OF n(1)] len split: if_splits)
    show "pins (digital_pin (int P) pv n c) ! j = map (\<lambda>j. if 8 * P \<le> j \<and> j < 8 * P + Suc n \<and> input_mode (pins b ! j)
               then spec_digital_pin (to_int32 pv) (j - 8 * P) (pins b ! j)
               else pins b ! j) [0..<length (pins b)] ! j"
    proof (cases "j = 8 * P + n")
      case True
      then show ?thesis
        using j at_k by (simp add: digital_pin_round_pins[OF n(1)] len)
    next
      case False
      then have "pins (digital_pin (int P) pv n c) ! j = pins c ! j"
        by (simp add: digital_pin_round_pins[OF n(1)])
      moreover have "(j < 8 * P + Suc n) = (j < 8 * P + n)"
        using False by auto
      ultimately show ?thesis
        using j by (simp add: ih)
    qed
  qed
  then show ?case by (simp add: c_def)
qed

lemma digital_rounds_pin_k:
  assumes "n \<le> 8"
  shows "(8 * P + n < length (pins (fold (digital_pin (int P) pv) [0..<n] b))
          \<and> input_mode (pins (fold (digital_pin (int P) pv) [0..<n] b) ! (8 * P + n)))
         = input_pin b (int (8 * P + n))"
  by (auto simp add: digital_rounds_pins[OF assms] input_pin_def pin_at_8)

lemma digital_rounds_emitted:
  assumes "n \<le> 8"
  shows "emitted (fold (digital_pin (int P) pv) [0..<n] b) =
     emitted b @ concat (map (\<lambda>i. if input_pin b (int (8 * P + i))
                                   then digital_events (int (8 * P + i))
                                          (if bit (to_int32 pv) i then 1 else 0)
                                   else []) [0..<n])"
  using assms
proof (induction n)
  case 0
  show ?case by simp
next
  case (Suc n)
  have n: "n < 8" "n \<le> 8" using Suc.prems by simp_all
  show ?case
    using Suc.IH[OF n(2)] digital_rounds_pin_k[OF n(2), of P pv b]
    by (simp add: digital_pin_round_emitted[OF n(1)])
qed

lemma digital_rounds_ports_other:
  assumes "n \<le> 8" "q \<noteq> int P"
  shows "ports (fold (digital_pin (int P) pv) [0..<n] b) q = ports b q"
  using assms(1)
proof (induction n)
  case 0
  show ?case by simp
next
  case (Suc n)
  have n: "n < 8" "n \<le> 8" using Suc.prems by simp_all
  show ?case
    using Suc.IH[OF n(2)] assms(2) by (simp add: digital_pin_round_ports[OF n(1)])
qed

lemma digital_rounds_ports_bits:
  assumes "n \<le> 8"
  shows "bit (to_int32 (num (ports (fold (digital_pin (int P) pv) [0..<n] b) (int P)))) j \<longleftrightarrow>
           (if j < n \<and> input_pin b (int (8 * P + j)) then bit (to_int32 pv) j
            else bit (to_int32 (num (ports b (int P)))) j)"
  using assms
proof (induction n)
  case 0
  show ?case by simp
next
  case (Suc n)
  define c where "c = fold (digital_pin (int P) pv) [0..<n] b"
  have n: "n < 8" "n \<le> 8" using Suc.prems by simp_all
  have k: "0 \<le> int n" "int n \<le> 7" using n by simp_all
  have ih: "bit (to_int32 (num (ports c (int P)))) j \<longleftrightarrow>
           (if j < n \<and> input_pin b (int (8 * P + j)) then bit (to_int32 pv) j
            else bit (to_int32 (num (ports b (int P)))) j)"
    unfolding c_def by (rule Suc.IH[OF n(2)])
  have act: "(8 * P + n < length (pins c) \<and> input_mode (pins c ! (8 * P + n)))
             = input_pin b (int (8 * P + n))"
    unfolding c_def by (rule digital_rounds_pin_k[OF n(2)])
  have "bit (to_int32 (num (ports (digital_pin (int P) pv n c) (int P)))) j \<longleftrightarrow>
           (if j < Suc n \<and> input_pin b (int (8 * P + j)) then bit (to_int32 pv) j
            else bit (to_int32 (num (ports b (int P)))) j)"
  proof (cases "input_pin b (int (8 * P + n))")
    case False
    with act have "\<not> (8 * P + n < length (pins c) \<and> input_mode (pins c ! (8 * P + n)))"
      by simp
    then have "ports (digital_pin (int P) pv n c) = ports c"
      by (simp only: digital_pin_round_ports[OF n(1)] if_False)
    moreover have "(j < Suc n \<and> input_pin b (int (8 * P + j))) = (j < n \<and> input_pin b (int (8 * P + j)))"
      using False by (cases "j = n") auto
    ultimately show ?thesis using ih by simp
  next
    case True
    then have p: "num (ports (digital_pin (int P) pv n c) (int P)) =
        (if bit (to_int32 pv) n then js_or (num (ports c (int P))) (js_shl 1 (int n))
         else js_and (num (ports c (int P))) (js_not (js_shl 1 (int n))))"
      using act by (simp add: digital_pin_round_ports[OF n(1)] num_def)
    show ?thesis
    proof (cases "j = n")
      case True
      with \<open>input_pin b (int (8 * P + n))\<close> show ?thesis
        by (simp add: p bit_js_or_bit[OF k] bit_js_and_not_bit[OF k])
    next
      case False
      then have "(j < Suc n \<and> input_pin b (int (8 * P + j))) = (j < n \<and> input_pin b (int (8 * P + j)))"
        by auto
      then show ?thesis
        using False ih by (simp add: p bit_js_or_bit[OF k] bit_js_and_not_bit[OF k])
    qed
  qed
  then show ?case by (simp add: c_def)
qed


lemma upt_8: "[0..<8] = [0, 1, 2, 3, 4, 5, 6, 7]"
  by code_simp

lemma midi_DIGITAL_MESSAGE_fold:
  assumes "currentBuffer b = [c, lsb, msb]"
  shows "midi_DIGITAL_MESSAGE b =
           fold (digital_pin (int (nat (js_and c 0x0F))) (js_or lsb (js_shl msb 7))) [0..<8] b"
  using assms js_and_15_range[of c]
  by (simp add: midi_DIGITAL_MESSAGE_def js_nth_def num_def Let_def)

text \<open>
  C6. For a digital message \<open>[c, lsb, msb]\<close> with port \<open>c & 0x0F\<close> and port value
  \<open>lsb | (msb << 7)\<close>: every pin \<open>8 * port + i\<close> (\<open>i < 8\<close>) that the board has and whose
  mode is INPUT or PULLUP gets bit \<open>i\<close> of the port value as its value, its event becomes
  KEY_RELEASED on a change from 0 to 1 and KEY_PRESSED on a change from 1 to 0, bit \<open>i\<close>
  of the port's mask becomes the new value, and the per-pin and the generic
  \<open>digital-read\<close> events are raised, in the order of the pins; every other pin is as
  before and raises no event.
\<close>

theorem digital_message_decoded:
  fixes b :: board and c lsb msb :: int
  defines "port \<equiv> nat (js_and c 0x0F)" and "portValue \<equiv> js_or lsb (js_shl msb 7)"
  assumes "currentBuffer b = [c, lsb, msb]"
  shows "pins (midi_DIGITAL_MESSAGE b) =
           map (\<lambda>j. if 8 * port \<le> j \<and> j < 8 * port + 8 \<and> input_mode (pins b ! j)
                     then spec_digital_pin portValue (j - 8 * port) (pins b ! j)
                     else pins b ! j) [0..<length (pins b)]
         \<and> (\<forall>i<8. input_pin b (int (8 * port + i)) \<longrightarrow>
               (bit (num (ports (midi_DIGITAL_MESSAGE b) (int port))) i \<longleftrightarrow> bit portValue i))
         \<and> emitted (midi_DIGITAL_MESSAGE b) =
             emitted b @ concat (map (\<lambda>i. if input_pin b (int (8 * port + i))
                                           then digital_events (int (8 * port + i))
                                                  (if bit portValue i then 1 else 0)
                                           else []) [0..<8])"
proof -
  have pv: "to_int32 portValue = portValue"
    by (simp add: portValue_def)
  have f: "midi_DIGITAL_MESSAGE b = fold (digital_pin (int port) portValue) [0..<8] b"
    unfolding port_def portValue_def by (rule midi_DIGITAL_MESSAGE_fold[OF assms(3)])
  have bits: "bit (num (ports (midi_DIGITAL_MESSAGE b) (int port))) i \<longleftrightarrow> bit portValue i"
    if "i < 8" "input_pin b (int (8 * port + i))" for i
  proof -
    have "bit (to_int32 (num (ports (midi_DIGITAL_MESSAGE b) (int port)))) i \<longleftrightarrow> bit portValue i"
      using that digital_rounds_ports_bits[of 8 port portValue b i] by (simp add: f pv)
    moreover have "min 31 i = i" using that(1) by simp
    ultimately show ?thesis by (simp add: bit_to_int32)
  qed
  have pins: "pins (midi_DIGITAL_MESSAGE b) =
           map (\<lambda>j. if 8 * port \<le> j \<and> j < 8 * port + 8 \<and> input_mode (pins b ! j)
                     then spec_digital_pin portValue (j - 8 * port) (pins b ! j)
                     else pins b ! j) [0..<length (pins b)]"
    using digital_rounds_pins[of 8 port portValue b] unfolding f pv by simp
  have emitted: "emitted (midi_DIGITAL_MESSAGE b) =
             emitted b @ concat (map (\<lambda>i. if input_pin b (int (8 * port + i))
                                           then digital_events (int (8 * port + i))
                                                  (if bit portValue i then 1 else 0)
                                           else []) [0..<8])"
    using digital_rounds_emitted[of 8 port portValue b] unfolding f pv by simp
  from pins emitted bits show ?thesis
    by blast
qed

lemma board_input_pin_eval:
  "board_input_pin =
     board_one_pin\<lparr>pins := [(new_pin 3)\<lparr>mode := Some MODES_INPUT\<rparr>],
                    sent := [[PIN_MODE, 0, MODES_INPUT], [0xD0, 0x01, 0xD1, 0x01, 0xD2, 0x01]]\<rparr>"
  by (simp add: board_input_pin_def board_one_pin_eval new_Board_def command_defs new_pin_3)

theorem digital_message_decoded_witness:
  "currentBuffer (board_input_pin\<lparr>currentBuffer := [0x90, 1, 0]\<rparr>) = [0x90, 1, 0]
   \<and> input_pin (board_input_pin\<lparr>currentBuffer := [0x90, 1, 0]\<rparr>) 0
   \<and> pins (midi_DIGITAL_MESSAGE (board_input_pin\<lparr>currentBuffer := [0x90, 1, 0]\<rparr>))
       = [(new_pin 3)\<lparr>mode := Some MODES_INPUT, val := 1, event := Some KEY_RELEASED\<rparr>]
   \<and> bit (num (ports (midi_DIGITAL_MESSAGE (board_input_pin\<lparr>currentBuffer := [0x90, 1, 0]\<rparr>)) 0)) (0::nat)
   \<and> emitted (midi_DIGITAL_MESSAGE (board_input_pin\<lparr>currentBuffer := [0x90, 1, 0]\<rparr>))
       = [Ev_reportversion, Ev_capability_query, Ev_digital_read_pin 0 1, Ev_digital_read 0 1]"
proof -
  define B where "B = board_input_pin\<lparr>currentBuffer := [0x90, 1, 0]\<rparr>"
  have h: "currentBuffer B = [0x90, 1, 0]"
    by (simp add: B_def)
  have B: "pins B = [(new_pin 3)\<lparr>mode := Some MODES_INPUT\<rparr>]"
    "emitted B = [Ev_reportversion, Ev_capability_query]"
    by (simp_all add: B_def board_input_pin_eval board_one_pin_eval new_Board_def)
  have port: "nat (js_and 0x90 0x0F) = 0" and pv: "js_or 1 (js_shl 0 7) = 1"
    by (simp_all add: js_defs)
  have ip: "input_pin B (int i) \<longleftrightarrow> i = 0" for i
    by (simp add: input_pin_def pin_at_int B input_mode_def new_pin_3)
  from digital_message_decoded[OF h] show ?thesis
    unfolding B_def[symmetric] port pv
    using ip[of 0] h
    by (simp add: B ip upt_8 input_mode_def spec_digital_pin_def digital_events_def new_pin_3)
qed

section \<open>The capability reply and the analog-mapping reply\<close>

lemma funpow_keeps:
  assumes "\<And>s. P (g s) = P s"
  shows "P ((g ^^ n) s) = P s"
  by (induction n) (simp_all add: assms)

lemma channels_init: "map analogChannel (pins (init b)) = map analogChannel (pins b)"
  by (simp add: init_def writeToTransport_def)

lemma channels_ready: "map analogChannel (pins (ready b)) = map analogChannel (pins b)"
  by (simp add: ready_def Let_def init_def writeToTransport_def)

lemma channels_emit: "map analogChannel (pins (emit b ev)) = map analogChannel (pins b)"
proof -
  have q: "map analogChannel (pins ((queryAnalogMapping ^^ n) s)) = map analogChannel (pins s)" for n s
    by (rule funpow_keeps) (simp add: queryAnalogMapping_def writeToTransport_def)
  have r: "map analogChannel (pins ((ready ^^ n) s)) = map analogChannel (pins s)" for n s
    by (rule funpow_keeps) (rule channels_ready)
  show ?thesis
    by (cases ev) (simp_all add: emit_def Let_def q r channels_init queryCapabilities_def
        writeToTransport_def)
qed

lemma length_pins_emit: "length (pins (emit b ev)) = length (pins b)"
  using arg_cong[OF channels_emit[of b ev], of length] by simp

lemma emit_capability_query_fields:
  "pins (emit b Ev_capability_query) = pins b"
  "versionReceived (emit b Ev_capability_query) = versionReceived b"
proof -
  have q: "pins ((queryAnalogMapping ^^ n) s) = pins s" for n s
    by (rule funpow_keeps) (simp add: queryAnalogMapping_def writeToTransport_def)
  have v: "versionReceived ((queryAnalogMapping ^^ n) s) = versionReceived s" for n s
    by (rule funpow_keeps) (simp add: queryAnalogMapping_def writeToTransport_def)
  show "pins (emit b Ev_capability_query) = pins b"
    "versionReceived (emit b Ev_capability_query) = versionReceived b"
    by (simp_all add: emit_def q v)
qed

lemma note_resolution_fields [simp]:
  "pins (note_resolution m r b) = pins b"
  "versionReceived (note_resolution m r b) = versionReceived b"
  by (simp_all add: note_resolution_def Let_def)

text \<open>Every byte 127 but one in the last place closes a pin.\<close>

lemma capability_loop_pins:
  "length (pins (capability_loop xs k n b)) = length (pins b) + count_list (butlast xs) 127"
  by (induction xs k n b rule: capability_loop.induct) (auto split: if_splits)

lemma capability_loop_versionReceived [simp]:
  "versionReceived (capability_loop xs k n b) = versionReceived b"
  by (induction xs k n b rule: capability_loop.induct) simp_all

lemma sysex_CAPABILITY_RESPONSE_pins:
  "\<exists>b'. sysex_CAPABILITY_RESPONSE b = Returned b'
        \<and> length (pins b') = count_list (payload (currentBuffer b)) 127
        \<and> versionReceived b' = versionReceived b"
  by (simp add: sysex_CAPABILITY_RESPONSE_def Let_def emit_capability_query_fields
      capability_loop_pins payload_def)

text \<open>The channels after the loop of the analog-mapping decoder, returned or thrown.\<close>

lemma mapping_loop_channels:
  "length (pins (state_of (mapping_loop cs k b))) = length (pins b)
   \<and> (\<forall>i < length (pins b).
         analogChannel (pins (state_of (mapping_loop cs k b)) ! i) =
           (if k \<le> i \<and> i < k + length cs then Some (cs ! (i - k))
            else analogChannel (pins b ! i)))"
proof (induction cs arbitrary: k b)
  case Nil
  show ?case by (auto simp: state_of_def)
next
  case (Cons c cs)
  show ?case
  proof (cases "k < length (pins b)")
    case False
    then show ?thesis by (auto simp: state_of_def)
  next
    case True
    define b1 where "b1 = b\<lparr>pins := (pins b)[k := (pins b ! k)\<lparr>analogChannel := Some c\<rparr>],
             analogPins := (if c \<noteq> 127 then analogPins b @ [k] else analogPins b)\<rparr>"
    have step: "mapping_loop (c # cs) k b = mapping_loop cs (Suc k) b1"
      using True by (simp add: b1_def)
    have len: "length (pins b1) = length (pins b)" by (simp add: b1_def)
    have at: "analogChannel (pins b1 ! i) = (if i = k then Some c else analogChannel (pins b ! i))"
      if "i < length (pins b)" for i
      using that by (simp add: b1_def nth_list_update)
    from Cons.IH[of "Suc k" b1]
    have ih: "length (pins (state_of (mapping_loop cs (Suc k) b1))) = length (pins b)"
      "\<And>i. i < length (pins b) \<Longrightarrow>
         analogChannel (pins (state_of (mapping_loop cs (Suc k) b1)) ! i) =
           (if Suc k \<le> i \<and> i < Suc k + length cs then Some (cs ! (i - Suc k))
            else analogChannel (pins b1 ! i))"
      by (simp_all add: len)
    show ?thesis
      unfolding step
    proof (intro conjI allI impI)
      show "length (pins (state_of (mapping_loop cs (Suc k) b1))) = length (pins b)"
        by (rule ih(1))
    next
      fix i assume i: "i < length (pins b)"
      show "analogChannel (pins (state_of (mapping_loop cs (Suc k) b1)) ! i) =
           (if k \<le> i \<and> i < k + length (c # cs) then Some ((c # cs) ! (i - k))
            else analogChannel (pins b ! i))"
      proof (cases "i = k")
        case True
        then show ?thesis using ih(2)[OF i] at[OF i] by simp
      next
        case False
        then show ?thesis
          using ih(2)[OF i] at[OF i] by (auto simp: nth_Cons' Suc_diff_Suc)
      qed
    qed
  qed
qed


lemma new_pin_channel [simp]: "analogChannel (new_pin k) = None"
  by (simp add: new_pin_def)

lemma capability_loop_channels:
  assumes "\<forall>p\<in>set (pins b). analogChannel p = None"
  shows "\<forall>p\<in>set (pins (capability_loop xs k n b)). analogChannel p = None"
  using assms by (induction xs k n b rule: capability_loop.induct) simp_all

lemma sysex_CAPABILITY_RESPONSE_channels:
  assumes "sysex_CAPABILITY_RESPONSE b = Returned b'"
  shows "\<forall>p\<in>set (pins b'). analogChannel p = None"
proof -
  have "\<forall>p\<in>set (pins (capability_loop (drop 2 (currentBuffer b)) 0 0
                           (b\<lparr>ports := ports0, pins := []\<rparr>))). analogChannel p = None"
    by (rule capability_loop_channels) simp
  then show ?thesis
    using assms
    by (auto simp: sysex_CAPABILITY_RESPONSE_def Let_def emit_capability_query_fields)
qed

lemma mapping_response_channels:
  "map analogChannel (pins (state_of (sysex_ANALOG_MAPPING_RESPONSE s))) =
     map analogChannel
       (pins (state_of (mapping_loop (payload (currentBuffer s)) 0 (s\<lparr>analogPins := []\<rparr>))))"
  by (cases "mapping_loop (payload (currentBuffer s)) 0 (s\<lparr>analogPins := []\<rparr>)")
     (simp_all add: sysex_ANALOG_MAPPING_RESPONSE_def state_of_def channels_emit)

lemma state_of_cleared:
  "pins (state_of (case r of Returned c \<Rightarrow> Returned (clear_buffer c) | Threw e c \<Rightarrow> Threw e c))
     = pins (state_of r)"
  by (cases r) (simp_all add: state_of_def clear_buffer_def)

text \<open>A capability reply read by the data handler.\<close>

lemma on_data_capability_frame:
  assumes "currentBuffer b = []" "versionReceived b"
    and "SYSEX_RESPONSE b CAPABILITY_RESPONSE = Some H_CAPABILITY_RESPONSE"
    and "\<forall>x\<in>set caps. x \<le> 127"
  shows "\<exists>b1. on_data b (START_SYSEX # CAPABILITY_RESPONSE # caps @ [END_SYSEX]) = Returned b1
           \<and> currentBuffer b1 = [] \<and> versionReceived b1
           \<and> SYSEX_RESPONSE b1 = SYSEX_RESPONSE b
           \<and> length (pins b1) = count_list caps 127
           \<and> (\<forall>p\<in>set (pins b1). analogChannel p = None)"
proof -
  define frame where "frame = START_SYSEX # CAPABILITY_RESPONSE # caps @ [END_SYSEX]"
  define c where "c = b\<lparr>currentBuffer := frame\<rparr>"
  define c2 where "c2 = c\<lparr>invoked := invoked c @ [(CAPABILITY_RESPONSE, currentBuffer c)]\<rparr>"
  have "on_data b (START_SYSEX # (CAPABILITY_RESPONSE # caps) @ [END_SYSEX]) =
          sysex_complete (b\<lparr>currentBuffer := START_SYSEX # (CAPABILITY_RESPONSE # caps) @ [END_SYSEX]\<rparr>)"
    using assms by (intro on_data_sysex_frame) simp_all
  then have 1: "on_data b frame = sysex_complete c"
    by (simp add: frame_def c_def)
  have 2: "sysex_complete c =
        (case run_handler H_CAPABILITY_RESPONSE c2 of
           Returned c1 \<Rightarrow> Returned (clear_buffer c1) | Threw e c1 \<Rightarrow> Threw e c1)"
    unfolding c2_def
    using assms by (intro sysex_complete_handler) (simp_all add: c_def frame_def js_nth_def)
  obtain b' where b': "sysex_CAPABILITY_RESPONSE c2 = Returned b'"
    "length (pins b') = count_list (payload (currentBuffer c2)) 127"
    "versionReceived b' = versionReceived c2"
    using sysex_CAPABILITY_RESPONSE_pins[of c2] by blast
  have sf: "same_frame c2 b'"
    using same_frame_run_handler[of c2 H_CAPABILITY_RESPONSE] b'(1) by (simp add: state_of_def)
  have ch: "\<forall>p\<in>set (pins b'). analogChannel p = None"
    by (rule sysex_CAPABILITY_RESPONSE_channels[OF b'(1)])
  have pl: "payload (currentBuffer c2) = caps"
    by (simp add: c2_def c_def frame_def payload_def)
  have "on_data b frame = Returned (clear_buffer b')"
    by (simp add: 1 2 b'(1))
  moreover have "currentBuffer (clear_buffer b') = []" "versionReceived (clear_buffer b')"
    "SYSEX_RESPONSE (clear_buffer b') = SYSEX_RESPONSE b"
    "length (pins (clear_buffer b')) = count_list caps 127"
    "\<forall>p\<in>set (pins (clear_buffer b')). analogChannel p = None"
    using sf b'(2,3) ch assms(2) unfolding pl
    by (simp_all add: clear_buffer_def same_frame_def c2_def c_def)
  ultimately show ?thesis
    unfolding frame_def by blast
qed

text \<open>An analog-mapping reply read by the data handler.\<close>

lemma on_data_mapping_frame:
  assumes "currentBuffer b = []" "versionReceived b"
    and "SYSEX_RESPONSE b ANALOG_MAPPING_RESPONSE = Some H_ANALOG_MAPPING_RESPONSE"
    and "\<forall>x\<in>set chans. x \<le> 127"
  shows "length (pins (state_of (on_data b (START_SYSEX # ANALOG_MAPPING_RESPONSE # chans @ [END_SYSEX]))))
           = length (pins b)
         \<and> (\<forall>i < length (pins b).
               analogChannel (pins (state_of (on_data b
                   (START_SYSEX # ANALOG_MAPPING_RESPONSE # chans @ [END_SYSEX]))) ! i) =
                 (if i < length chans then Some (chans ! i) else analogChannel (pins b ! i)))"
proof -
  define frame where "frame = START_SYSEX # ANALOG_MAPPING_RESPONSE # chans @ [END_SYSEX]"
  define c where "c = b\<lparr>currentBuffer := frame\<rparr>"
  define c2 where "c2 = c\<lparr>invoked := invoked c @ [(ANALOG_MAPPING_RESPONSE, currentBuffer c)]\<rparr>"
  define r where "r = state_of (on_data b frame)"
  have "on_data b (START_SYSEX # (ANALOG_MAPPING_RESPONSE # chans) @ [END_SYSEX]) =
          sysex_complete (b\<lparr>currentBuffer := START_SYSEX # (ANALOG_MAPPING_RESPONSE # chans) @ [END_SYSEX]\<rparr>)"
    using assms by (intro on_data_sysex_frame) simp_all
  then have 1: "on_data b frame = sysex_complete c"
    by (simp add: frame_def c_def)
  have 2: "sysex_complete c =
        (case run_handler H_ANALOG_MAPPING_RESPONSE c2 of
           Returned c1 \<Rightarrow> Returned (clear_buffer c1) | Threw e c1 \<Rightarrow> Threw e c1)"
    unfolding c2_def
    using assms by (intro sysex_complete_handler) (simp_all add: c_def frame_def js_nth_def)
  have pl: "payload (currentBuffer c2) = chans"
    by (simp add: c2_def c_def frame_def payload_def)
  have "pins r = pins (state_of (sysex_ANALOG_MAPPING_RESPONSE c2))"
    by (simp add: r_def 1 2 state_of_cleared)
  then have ch: "map analogChannel (pins r) =
      map analogChannel (pins (state_of (mapping_loop chans 0 (c2\<lparr>analogPins := []\<rparr>))))"
    by (simp add: mapping_response_channels pl)
  have p0: "pins (c2\<lparr>analogPins := []\<rparr>) = pins b"
    by (simp add: c2_def c_def)
  note ml = mapping_loop_channels[of chans 0 "c2\<lparr>analogPins := []\<rparr>", unfolded p0]
  have len: "length (pins r) = length (pins b)"
    using arg_cong[OF ch, of length] ml by simp
  have "analogChannel (pins r ! i) = (if i < length chans then Some (chans ! i) else analogChannel (pins b ! i))"
    if "i < length (pins b)" for i
  proof -
    have "analogChannel (pins r ! i) = map analogChannel (pins r) ! i"
      using that len by simp
    also have "\<dots> = analogChannel (pins (state_of (mapping_loop chans 0 (c2\<lparr>analogPins := []\<rparr>))) ! i)"
      unfolding ch using that ml by simp
    finally show ?thesis
      using ml that by simp
  qed
  with len show ?thesis
    unfolding r_def frame_def by blast
qed


text \<open>
  C5, as amended. A capability reply read by the data handler rebuilds the pins array
  with exactly one pin per byte 0x7F of the frame, whatever pins the board had (a second
  reply does not add to the first). After an analog-mapping reply that follows at once,
  pin \<open>i\<close> has the \<open>i\<close>-th byte of the reply as its \<open>analogChannel\<close> when the reply
  has such a byte, and no \<open>analogChannel\<close> otherwise; so every pin's \<open>analogChannel\<close> is
  a channel number or the sentinel 0x7F when the reply has at least one byte per pin.
\<close>

theorem capability_then_analog_mapping:
  fixes b :: board and caps chans :: "int list"
  defines "capFrame \<equiv> START_SYSEX # CAPABILITY_RESPONSE # caps @ [END_SYSEX]"
    and "mapFrame \<equiv> START_SYSEX # ANALOG_MAPPING_RESPONSE # chans @ [END_SYSEX]"
  assumes "currentBuffer b = []" and "versionReceived b"
    and "SYSEX_RESPONSE b CAPABILITY_RESPONSE = Some H_CAPABILITY_RESPONSE"
    and "SYSEX_RESPONSE b ANALOG_MAPPING_RESPONSE = Some H_ANALOG_MAPPING_RESPONSE"
    and "\<forall>x\<in>set caps. x \<le> 127" and "\<forall>x\<in>set chans. 0 \<le> x \<and> x \<le> 127"
  shows "returns (on_data b capFrame)
         \<and> length (pins (state_of (on_data b capFrame))) = count_list capFrame 127
         \<and> length (pins (state_of (on_data b (capFrame @ mapFrame)))) = count_list capFrame 127
         \<and> (\<forall>i < count_list capFrame 127.
               analogChannel (pins (state_of (on_data b (capFrame @ mapFrame))) ! i) =
                 (if i < length chans then Some (chans ! i) else None))
         \<and> (count_list capFrame 127 \<le> length chans \<longrightarrow>
               (\<forall>p\<in>set (pins (state_of (on_data b (capFrame @ mapFrame)))).
                  \<exists>c. analogChannel p = Some c \<and> 0 \<le> c \<and> c \<le> 127))"
proof -
  define r where "r = state_of (on_data b (capFrame @ mapFrame))"
  have cnt: "count_list capFrame 127 = count_list caps 127"
    by (simp add: capFrame_def)
  obtain b1 where b1: "on_data b capFrame = Returned b1" "currentBuffer b1 = []"
    "versionReceived b1" "SYSEX_RESPONSE b1 = SYSEX_RESPONSE b"
    "length (pins b1) = count_list caps 127" "\<forall>p\<in>set (pins b1). analogChannel p = None"
    using on_data_capability_frame[OF assms(3,4,5,7)] unfolding capFrame_def by blast
  have chans127: "\<forall>x\<in>set chans. x \<le> 127"
    using assms(8) by simp
  have m: "SYSEX_RESPONSE b1 ANALOG_MAPPING_RESPONSE = Some H_ANALOG_MAPPING_RESPONSE"
    using assms(6) b1(4) by simp
  have both: "on_data b (capFrame @ mapFrame) = on_data b1 mapFrame"
    by (simp add: on_data_append b1(1))
  note mp = on_data_mapping_frame[OF b1(2,3) m chans127, folded mapFrame_def, folded both, folded r_def]
  have len: "length (pins r) = count_list caps 127"
    using mp b1(5) by simp
  have chan: "analogChannel (pins r ! i) = (if i < length chans then Some (chans ! i) else None)"
    if "i < count_list caps 127" for i
  proof -
    have "i < length (pins b1)" using that b1(5) by simp
    moreover from this have "analogChannel (pins b1 ! i) = None"
      using b1(6) by simp
    ultimately show ?thesis using mp by simp
  qed
  have valid: "\<exists>c. analogChannel p = Some c \<and> 0 \<le> c \<and> c \<le> 127"
    if "count_list caps 127 \<le> length chans" "p \<in> set (pins r)" for p
  proof -
    from that(2) obtain i where i: "i < length (pins r)" "p = pins r ! i"
      by (auto simp: in_set_conv_nth)
    then have "i < length chans" using that(1) len by simp
    moreover from this have "chans ! i \<in> set chans" by simp
    ultimately show ?thesis
      using chan[of i] i len assms(8) by auto
  qed
  show ?thesis
    unfolding r_def[symmetric] cnt
    using b1(1,5) len chan valid by (simp add: returns_def state_of_def)
qed

theorem capability_then_analog_mapping_witness:
  "currentBuffer board_one_pin = [] \<and> versionReceived board_one_pin
   \<and> length (pins board_one_pin) = 1
   \<and> length (pins (state_of (on_data board_one_pin
        ([0xF0, 0x6C, 0, 1, 0x7F, 2, 10, 0x7F, 0xF7] @ [0xF0, 0x6A, 0x7F, 0, 0xF7])))) = 2
   \<and> analogChannel (pins (state_of (on_data board_one_pin
        ([0xF0, 0x6C, 0, 1, 0x7F, 2, 10, 0x7F, 0xF7] @ [0xF0, 0x6A, 0x7F, 0, 0xF7]))) ! 0) = Some 0x7F
   \<and> analogChannel (pins (state_of (on_data board_one_pin
        ([0xF0, 0x6C, 0, 1, 0x7F, 2, 10, 0x7F, 0xF7] @ [0xF0, 0x6A, 0x7F, 0, 0xF7]))) ! 1) = Some 0"
proof -
  have h: "currentBuffer board_one_pin = []" "versionReceived board_one_pin"
    "SYSEX_RESPONSE board_one_pin CAPABILITY_RESPONSE = Some H_CAPABILITY_RESPONSE"
    "SYSEX_RESPONSE board_one_pin ANALOG_MAPPING_RESPONSE = Some H_ANALOG_MAPPING_RESPONSE"
    "\<forall>x\<in>set [0, 1, 0x7F, 2, 10, 0x7F :: int]. x \<le> 127"
    "\<forall>x\<in>set [0x7F, 0 :: int]. 0 \<le> x \<and> x \<le> 127"
    "length (pins board_one_pin) = 1"
    by (simp_all add: board_one_pin_eval new_Board_def builtin_SYSEX_RESPONSE_def)
  from capability_then_analog_mapping[OF h(1-6)] h(1,2,7) show ?thesis
    by (simp add: nat_less_iff less_Suc_eq all_conj_distrib)
qed

text \<open>
  C5, as stated, fails for an analog-mapping reply shorter than the pins array: here the
  capability reply declares two pins and the mapping reply has one byte, and the second
  pin has no \<open>analogChannel\<close>.
\<close>

theorem analog_mapping_short_counterexample:
  "map analogChannel (pins (state_of (on_data new_Board
      ([0xF9, 2, 5] @ [0xF0, 0x6C, 0, 1, 0x7F, 0, 1, 0x7F, 0xF7] @ [0xF0, 0x6A, 0, 0xF7]))))
   = [Some 0, None]"
  by (simp add: parser_defs sysex_CAPABILITY_RESPONSE_def note_resolution_def new_pin_def js_defs
      Let_def)

end
